theory Spec2Isabelle
  imports Main "HOL-Library.Multiset"
begin

section \<open>Values, errors and the state of the three external stores\<close>

text \<open>
  Every failure of the JavaScript sources is a thrown \<^verbatim>\<open>Error\<close> carrying a message; the
  model returns it as the left summand of a sum type.
\<close>

datatype error = Error string

fun error_message :: "error \<Rightarrow> string" where
  "error_message (Error m) = m"

text \<open>
  The object produced by the validator and sent through the pipeline
  (\<^verbatim>\<open>firstName, lastName, email, gender, sex, occupation\<close>).
\<close>

record user_data =
  firstName :: string
  lastName :: string
  email :: string
  gender :: string
  sex :: string
  occupation :: string

text \<open>
  A row of table \<^verbatim>\<open>users\<close> (\<^verbatim>\<open>createUsersTable\<close>): the columns keep their SQL names, with a
  prefix where the name is taken already. Timestamps are natural numbers.
\<close>

record user_row =
  row_id :: nat
  first_name :: string
  last_name :: string
  row_email :: string
  row_gender :: string
  row_sex :: string
  row_occupation :: string
  created_at :: nat
  updated_at :: nat

text \<open>
  The JSON documents the service writes to Redis: the validated submission
  (\<^verbatim>\<open>JSON.stringify(validatedData)\<close>), a row with its \<^verbatim>\<open>savedAt\<close> stamp
  (\<^verbatim>\<open>{ savedAt, ...result.rows[0] }\<close>) and a bare row (\<^verbatim>\<open>JSON.stringify(result.rows[0])\<close>).
\<close>

datatype json_doc =
    PendingDoc user_data
  | SavedDoc nat user_row
  | RowDoc user_row

text \<open>
  The value of a Kafka message: the JSON text of a submission, or a text that
  \<^verbatim>\<open>JSON.parse\<close> rejects. \<^verbatim>\<open>sendMessage\<close> sets \<^verbatim>\<open>value\<close> and \<^verbatim>\<open>timestamp\<close> and no \<^verbatim>\<open>key\<close>; the
  field \<open>mkey\<close> is the optional key of the Kafka message format.
\<close>

datatype payload = Malformed | Registration user_data

record kafka_message =
  mkey :: "string option"
  mvalue :: payload
  mtimestamp :: nat

text \<open>
  The module-level handles (\<^verbatim>\<open>redisClient\<close>, \<^verbatim>\<open>pool\<close>, \<^verbatim>\<open>producer\<close>: \<open>True\<close> when not
  \<^verbatim>\<open>null\<close>) and the state of the three stores behind them. A store that is unreachable
  is \<open>Some m\<close> in its \<open>_fault\<close> field, \<open>m\<close> being the message of the error its client
  library throws on every command. Redis maps a key to its time to live in seconds and
  its document; an entry that expires is an entry removed.

  A topic is a family of logs, one for each of its partitions: \<open>topic_log w topic p\<close> is
  the log of partition \<open>p\<close>, and the offset of a message is its position there. There is
  no order between the messages of two partitions. \<open>partitions w topic\<close> is the number of
  partitions of the topic; the code creates no topic, and the cluster of
  \<^verbatim>\<open>terraform/msk.tf\<close> creates one with three partitions when it is first used
  (\<^verbatim>\<open>auto.create.topics.enable=true\<close>, \<^verbatim>\<open>num.partitions=3\<close>). \<open>counters\<close> is the table of that
  name of the partitioner of the producer (below, with \<open>sendMessage\<close>). \<open>group_offset w p\<close>
  is the committed offset of the consumer group \<^verbatim>\<open>user-registration-group\<close> in partition
  \<open>p\<close> of the topic \<^verbatim>\<open>user-registration\<close>.

  The clock is not part of the state: a function that reads it (\<^verbatim>\<open>Date.now()\<close>,
  \<^verbatim>\<open>CURRENT_TIMESTAMP\<close>) takes the time \<open>t\<close> as an argument.
\<close>

record world =
  redisClient :: bool
  redis_fault :: "string option"
  redis_store :: "string \<rightharpoonup> nat \<times> json_doc"
  pool :: bool
  pg_fault :: "string option"
  users :: "user_row list"
  users_id_seq :: nat
  producer :: bool
  kafka_fault :: "string option"
  partitions :: "string \<Rightarrow> nat"
  counters :: "string \<Rightarrow> nat"
  topic_log :: "string \<Rightarrow> nat \<Rightarrow> kafka_message list"
  group_offset :: "nat \<Rightarrow> nat"

subsection \<open>config/redis.js (src/unnamed/part_002)\<close>

definition getRedisClient :: "world \<Rightarrow> error + unit" where
  "getRedisClient w =
     (if redisClient w then Inr ()
      else Inl (Error ''Redis client not initialized. Call connectRedis() first.''))"

text \<open>The commands of the Redis client that the service uses.\<close>

definition setEx :: "string \<Rightarrow> nat \<Rightarrow> json_doc \<Rightarrow> world \<Rightarrow> error + world" where
  "setEx k ttl v w =
     (case redis_fault w of
        Some m \<Rightarrow> Inl (Error m)
      | None \<Rightarrow> Inr (w\<lparr>redis_store := (redis_store w)(k \<mapsto> (ttl, v))\<rparr>))"

definition redis_get :: "string \<Rightarrow> world \<Rightarrow> error + json_doc option" where
  "redis_get k w =
     (case redis_fault w of
        Some m \<Rightarrow> Inl (Error m)
      | None \<Rightarrow> Inr (map_option snd (redis_store w k)))"

definition redis_del :: "string \<Rightarrow> world \<Rightarrow> error + world" where
  "redis_del k w =
     (case redis_fault w of
        Some m \<Rightarrow> Inl (Error m)
      | None \<Rightarrow> Inr (w\<lparr>redis_store := (redis_store w)(k := None)\<rparr>))"

definition redis_ping :: "world \<Rightarrow> error + unit" where
  "redis_ping w = (case redis_fault w of Some m \<Rightarrow> Inl (Error m) | None \<Rightarrow> Inr ())"

subsection \<open>config/database.js (src/unnamed/part_001)\<close>

definition getPool :: "world \<Rightarrow> error + unit" where
  "getPool w =
     (if pool w then Inr ()
      else Inl (Error ''Database pool not initialized. Call connectDatabase() first.''))"

text \<open>\<^verbatim>\<open>pool.query('SELECT 1')\<close>: fails when the server does not answer.\<close>

definition pool_query_select1 :: "world \<Rightarrow> error + unit" where
  "pool_query_select1 w = (case pg_fault w of Some m \<Rightarrow> Inl (Error m) | None \<Rightarrow> Inr ())"

subsection \<open>config/kafka.js: the producer handle\<close>

definition getProducer :: "world \<Rightarrow> error + unit" where
  "getProducer w =
     (if producer w then Inr () else Inl (Error ''Kafka producer not initialized''))"

section \<open>routes/healthRoutes.js\<close>

datatype service_status = Unknown | Healthy | Unhealthy

record services =
  redis :: service_status
  postgres :: service_status
  kafka :: service_status

record health_response =
  statusCode :: nat
  hmessage :: string
  hservices :: services

text \<open>
  The three isolated checks of \<^verbatim>\<open>GET /api/health\<close>, each a \<^verbatim>\<open>try/catch\<close> of its own that
  turns an error into \<^verbatim>\<open>'unhealthy'\<close>. The answer keeps the status code, the message and
  the three entries (\<^verbatim>\<open>uptime\<close> and \<^verbatim>\<open>timestamp\<close> are left out); no error reaches the outer
  \<^verbatim>\<open>catch\<close>, so the message stays \<^verbatim>\<open>'OK'\<close>.
\<close>

definition check_redis :: "world \<Rightarrow> service_status" where
  "check_redis w =
     (case getRedisClient w of
        Inl e \<Rightarrow> Unhealthy
      | Inr c \<Rightarrow> (case redis_ping w of Inl e \<Rightarrow> Unhealthy | Inr u \<Rightarrow> Healthy))"

definition check_postgres :: "world \<Rightarrow> service_status" where
  "check_postgres w =
     (case getPool w of
        Inl e \<Rightarrow> Unhealthy
      | Inr p \<Rightarrow> (case pool_query_select1 w of Inl e \<Rightarrow> Unhealthy | Inr u \<Rightarrow> Healthy))"

text \<open>
  The Kafka check only fetches the handle: \<^verbatim>\<open>getProducer\<close> throws when it is \<^verbatim>\<open>null\<close>, and
  a handle that is returned is an object, hence truthy.
\<close>

definition check_kafka :: "world \<Rightarrow> service_status" where
  "check_kafka w = (case getProducer w of Inl e \<Rightarrow> Unhealthy | Inr p \<Rightarrow> Healthy)"

definition health :: "world \<Rightarrow> health_response" where
  "health w =
     (let s = \<lparr>redis = check_redis w, postgres = check_postgres w, kafka = check_kafka w\<rparr>;
          allHealthy = list_all (\<lambda>status. status = Healthy) [redis s, postgres s, kafka s]
      in \<lparr>statusCode = (if allHealthy then 200 else 503), hmessage = ''OK'', hservices = s\<rparr>)"

text \<open>
  A state in which every handle is set, every store answers and nothing is stored; the
  topics have the three partitions of \<^verbatim>\<open>msk.tf\<close>.
\<close>

definition world0 :: world where
  "world0 =
     \<lparr>redisClient = True, redis_fault = None, redis_store = Map.empty,
      pool = True, pg_fault = None, users = [], users_id_seq = 0,
      producer = True, kafka_fault = None, partitions = (\<lambda>topic. 3), counters = (\<lambda>topic. 0),
      topic_log = (\<lambda>topic p. []), group_offset = (\<lambda>p. 0)\<rparr>"

section \<open>services/userService.js (src/unnamed/part_000): the validator\<close>

text \<open>
  A request body as \<^verbatim>\<open>express.json()\<close> delivers it. An object is the list of its
  properties in insertion order; \<open>map_of\<close> reads a property, and an absent one is
  \<^verbatim>\<open>undefined\<close>.
\<close>

datatype jsval =
    JNull
  | JBool bool
  | JNum int
  | JStr string
  | JArr "jsval list"
  | JObj "(string \<times> jsval) list"

fun truthy :: "jsval \<Rightarrow> bool" where
  "truthy JNull = False"
| "truthy (JBool b) = b"
| "truthy (JNum n) = (n \<noteq> 0)"
| "truthy (JStr s) = (s \<noteq> [])"
| "truthy (JArr xs) = True"
| "truthy (JObj kvs) = True"

text \<open>
  The error types of Joi that \<^verbatim>\<open>userSchema\<close> can report (\<^verbatim>\<open>any.required\<close>, \<^verbatim>\<open>any.only\<close>,
  \<^verbatim>\<open>string.base\<close>, ...). Two parts of the library are parameters: its test for an email
  address and the text it renders for an error of a given label and type.
\<close>

datatype joi_code =
    any_required
  | any_only "string list"
  | string_base
  | string_empty
  | string_min nat
  | string_max nat
  | string_email
  | object_unknown
  | object_base

record joi_lib =
  valid_email :: "string \<Rightarrow> bool"
  detail_message :: "string \<Rightarrow> joi_code \<Rightarrow> string"

datatype string_rule = MinLen nat | MaxLen nat | EmailRule

datatype key_schema = JoiString "string_rule list" | JoiValid "string list"

text \<open>\<^verbatim>\<open>userSchema\<close>: six keys, every one \<^verbatim>\<open>required()\<close>, in the order of the source.\<close>

definition userSchema :: "(string \<times> key_schema) list" where
  "userSchema =
     [(''firstName'', JoiString [MinLen 2, MaxLen 100]),
      (''lastName'', JoiString [MinLen 2, MaxLen 100]),
      (''email'', JoiString [EmailRule]),
      (''gender'', JoiValid [''male'', ''female'', ''non-binary'', ''prefer-not-to-say'']),
      (''sex'', JoiValid [''male'', ''female'', ''intersex'']),
      (''occupation'', JoiString [MinLen 2, MaxLen 255])]"

text \<open>The rules of a string schema run in the order they were added; the first failure is reported.\<close>

fun check_rules :: "joi_lib \<Rightarrow> string_rule list \<Rightarrow> string \<Rightarrow> joi_code option" where
  "check_rules lib [] s = None"
| "check_rules lib (MinLen n # rs) s =
     (if length s < n then Some (string_min n) else check_rules lib rs s)"
| "check_rules lib (MaxLen n # rs) s =
     (if n < length s then Some (string_max n) else check_rules lib rs s)"
| "check_rules lib (EmailRule # rs) s =
     (if valid_email lib s then check_rules lib rs s else Some string_email)"

text \<open>
  One required key: \<^verbatim>\<open>undefined\<close> is \<^verbatim>\<open>any.required\<close>; with \<^verbatim>\<open>valid(...)\<close> any value outside the
  list is \<^verbatim>\<open>any.only\<close>; a string schema refuses a value that is not a string, then the
  empty string, then runs its rules.
\<close>

fun validate_item :: "joi_lib \<Rightarrow> key_schema \<Rightarrow> jsval option \<Rightarrow> joi_code option" where
  "validate_item lib sch None = Some any_required"
| "validate_item lib (JoiValid vs) (Some (JStr s)) =
     (if s \<in> set vs then None else Some (any_only vs))"
| "validate_item lib (JoiValid vs) (Some v) = Some (any_only vs)"
| "validate_item lib (JoiString rs) (Some (JStr s)) =
     (if s = [] then Some string_empty else check_rules lib rs s)"
| "validate_item lib (JoiString rs) (Some v) = Some string_base"

text \<open>
  The keys of the schema are validated in their order and, \<^verbatim>\<open>abortEarly\<close> being the
  default, the first error ends the validation.
\<close>

fun validate_keys ::
  "joi_lib \<Rightarrow> (string \<times> key_schema) list \<Rightarrow> (string \<times> jsval) list \<Rightarrow> (string \<times> joi_code) option" where
  "validate_keys lib [] obj = None"
| "validate_keys lib ((k, sch) # rest) obj =
     (case validate_item lib sch (map_of obj k) of
        Some c \<Rightarrow> Some (k, c)
      | None \<Rightarrow> validate_keys lib rest obj)"

text \<open>
  \<^verbatim>\<open>Joi.object({...})\<close> without \<^verbatim>\<open>unknown()\<close>/\<^verbatim>\<open>allowUnknown\<close>: a property of the value that the
  schema does not name is \<^verbatim>\<open>object.unknown\<close>, reported after the keys of the schema.
\<close>

definition unknown_keys :: "(string \<times> key_schema) list \<Rightarrow> (string \<times> jsval) list \<Rightarrow> string list" where
  "unknown_keys schema obj = filter (\<lambda>k. k \<notin> set (map fst schema)) (map fst obj)"

definition schema_validate ::
  "joi_lib \<Rightarrow> (string \<times> key_schema) list \<Rightarrow> jsval \<Rightarrow> (string \<times> joi_code) + (string \<times> jsval) list" where
  "schema_validate lib schema v =
     (case v of
        JObj obj \<Rightarrow>
          (case validate_keys lib schema obj of
             Some d \<Rightarrow> Inl d
           | None \<Rightarrow>
               (case unknown_keys schema obj of
                  k # ks \<Rightarrow> Inl (k, object_unknown)
                | [] \<Rightarrow> Inr obj))
      | _ \<Rightarrow> Inl (''value'', object_base))"

text \<open>
  The validated value read as the record of its six properties. Joi changes no string
  of this schema (no \<^verbatim>\<open>trim\<close>, no case rule), so the value is the input.
\<close>

definition str_prop :: "(string \<times> jsval) list \<Rightarrow> string \<Rightarrow> string" where
  "str_prop obj k = (case map_of obj k of Some (JStr s) \<Rightarrow> s | _ \<Rightarrow> [])"

definition as_user_data :: "(string \<times> jsval) list \<Rightarrow> user_data" where
  "as_user_data obj =
     \<lparr>firstName = str_prop obj ''firstName'', lastName = str_prop obj ''lastName'',
      email = str_prop obj ''email'', gender = str_prop obj ''gender'',
      sex = str_prop obj ''sex'', occupation = str_prop obj ''occupation''\<rparr>"

definition validateUserData :: "joi_lib \<Rightarrow> jsval \<Rightarrow> error + user_data" where
  "validateUserData lib userData =
     (case schema_validate lib userSchema userData of
        Inl (label, code) \<Rightarrow> Inl (Error (''Validation error: '' @ detail_message lib label code))
      | Inr obj \<Rightarrow> Inr (as_user_data obj))"

section \<open>config/kafka.js: the producer\<close>

text \<open>
  \<^verbatim>\<open>kafka.producer()\<close> is created with no option, so the partition of a message is chosen
  by the default partitioner of KafkaJS. A message that names a partition goes there and
  a message with a key goes to the partition that the hash of the key gives;
  \<^verbatim>\<open>sendMessage\<close> sets neither, and for such a message the partitioner takes
  \<^verbatim>\<open>toPositive(++counters[topic]) % numPartitions\<close>, with \<^verbatim>\<open>toPositive(x) = x & 0x7fffffff\<close>:
  the partitions in turn, whatever the message holds. The first value of the counter is
  drawn at random; here it is the one the state has. All partitions are taken to have a
  leader.
\<close>

definition toPositive :: "nat \<Rightarrow> nat" where
  "toPositive x = x mod 2147483648"

definition next_partition :: "world \<Rightarrow> string \<Rightarrow> nat" where
  "next_partition w topic = toPositive (Suc (counters w topic)) mod partitions w topic"

text \<open>
  \<^verbatim>\<open>sendMessage\<close>: one message with \<^verbatim>\<open>value\<close> and \<^verbatim>\<open>timestamp\<close>, without \<^verbatim>\<open>key\<close> and without
  \<^verbatim>\<open>partition\<close>. With the broker unreachable the send fails before a partition is chosen.
\<close>

definition sendMessage :: "nat \<Rightarrow> string \<Rightarrow> user_data \<Rightarrow> world \<Rightarrow> error + world" where
  "sendMessage t topic message w =
     (if \<not> producer w then Inl (Error ''Kafka producer not initialized'')
      else case kafka_fault w of
        Some m \<Rightarrow> Inl (Error m)
      | None \<Rightarrow>
          Inr (w\<lparr>counters := (counters w)(topic := Suc (counters w topic)),
                 topic_log := (topic_log w)
                   (topic := (topic_log w topic)
                      (next_partition w topic :=
                         topic_log w topic (next_partition w topic) @
                           [\<lparr>mkey = None, mvalue = Registration message, mtimestamp = t\<rparr>]))\<rparr>))"

section \<open>services/userService.js: submission\<close>

record submit_result =
  success :: bool
  message :: string
  result_email :: string

text \<open>
  \<^verbatim>\<open>submitUserData\<close>. An error thrown at any step is logged and thrown again; the state
  is the one reached when it was thrown.
\<close>

definition submitUserData ::
  "joi_lib \<Rightarrow> nat \<Rightarrow> jsval \<Rightarrow> world \<Rightarrow> (error + submit_result) \<times> world" where
  "submitUserData lib t userData w =
     (case validateUserData lib userData of
        Inl e \<Rightarrow> (Inl e, w)
      | Inr validatedData \<Rightarrow>
          (case getRedisClient w of
             Inl e \<Rightarrow> (Inl e, w)
           | Inr c \<Rightarrow>
               (case setEx (''user:pending:'' @ email validatedData) 3600
                       (PendingDoc validatedData) w of
                  Inl e \<Rightarrow> (Inl e, w)
                | Inr w1 \<Rightarrow>
                    (case sendMessage t ''user-registration'' validatedData w1 of
                       Inl e \<Rightarrow> (Inl e, w1)
                     | Inr w2 \<Rightarrow>
                         (Inr \<lparr>success = True,
                               message = ''User registration submitted successfully'',
                               result_email = email validatedData\<rparr>, w2)))))"

section \<open>The table users and the statements run against it\<close>

text \<open>
  The table \<^verbatim>\<open>users\<close> exists from \<^verbatim>\<open>connectDatabase\<close> on (\<^verbatim>\<open>createUsersTable\<close>); its column
  \<^verbatim>\<open>email\<close> is \<^verbatim>\<open>UNIQUE\<close>, which is what \<^verbatim>\<open>ON CONFLICT (email)\<close> below rests on.
  \<^verbatim>\<open>query(text, params)\<close> first takes a client from the pool: that fails on a pool that was
  never created (a \<^verbatim>\<open>TypeError\<close> on \<^verbatim>\<open>null\<close>) and on a server that does not answer.
\<close>

definition pool_connect :: "world \<Rightarrow> error + unit" where
  "pool_connect w =
     (if \<not> pool w then
        Inl (Error (''Cannot read properties of null (reading '' @ [CHR 0x27] @ ''connect'' @
                    [CHR 0x27] @ '')''))
      else case pg_fault w of Some m \<Rightarrow> Inl (Error m) | None \<Rightarrow> Inr ())"

text \<open>
  Storing a string in a column \<^verbatim>\<open>VARCHAR(n)\<close>: a longer string is an error, unless the
  excess is spaces only; then it is cut to \<open>n\<close> characters.
\<close>

definition varchar :: "nat \<Rightarrow> string \<Rightarrow> string option" where
  "varchar n s =
     (if length s \<le> n then Some s
      else if list_all (\<lambda>c. c = CHR '' '') (drop n s) then Some (take n s)
      else None)"

text \<open>
  The statement of \<^verbatim>\<open>saveUserToDatabase\<close>:
  \<^verbatim>\<open>INSERT INTO users (...) VALUES ($1..$6) ON CONFLICT (email) DO UPDATE SET ... RETURNING *\<close>.
  With no row of that email, a row is added: \<^verbatim>\<open>id\<close> from the sequence of the \<^verbatim>\<open>SERIAL\<close>
  column, both timestamps \<^verbatim>\<open>CURRENT_TIMESTAMP\<close>. Otherwise the row of that email gets the
  five other columns of the proposed row and a new \<^verbatim>\<open>updated_at\<close>; its \<^verbatim>\<open>id\<close>, \<^verbatim>\<open>email\<close> and
  \<^verbatim>\<open>created_at\<close> stay. The sequence moves on in both cases (the default of \<^verbatim>\<open>id\<close> is
  computed for the proposed row before the conflict is seen). \<^verbatim>\<open>SERIAL\<close> is a 4-byte
  integer: once the sequence has given 2147483647, \<^verbatim>\<open>nextval\<close> is an error, also for a
  statement that would only update. A value too long for its column makes the statement
  fail as well; the state is unchanged by a statement that fails.
\<close>

definition int4_max :: nat where
  "int4_max = 2147483647"

definition sequence_exhausted :: error where
  "sequence_exhausted =
     Error (''nextval: reached maximum value of sequence '' @ [CHR 0x22] @ ''users_id_seq'' @
            [CHR 0x22] @ '' (2147483647)'')"

definition insert_on_conflict :: "nat \<Rightarrow> user_data \<Rightarrow> world \<Rightarrow> error + user_row \<times> world" where
  "insert_on_conflict t u w =
     (case (varchar 100 (firstName u), varchar 100 (lastName u), varchar 255 (email u),
            varchar 50 (gender u), varchar 50 (sex u), varchar 255 (occupation u)) of
        (Some fn, Some ln, Some em, Some g, Some s, Some oc) \<Rightarrow>
          if int4_max \<le> users_id_seq w then Inl sequence_exhausted
          else
          (case find (\<lambda>r. row_email r = em) (users w) of
             None \<Rightarrow>
               (let row = \<lparr>row_id = Suc (users_id_seq w), first_name = fn, last_name = ln,
                           row_email = em, row_gender = g, row_sex = s, row_occupation = oc,
                           created_at = t, updated_at = t\<rparr>
                in Inr (row, w\<lparr>users := users w @ [row], users_id_seq := Suc (users_id_seq w)\<rparr>))
           | Some old \<Rightarrow>
               (let row = old\<lparr>first_name := fn, last_name := ln, row_gender := g, row_sex := s,
                              row_occupation := oc, updated_at := t\<rparr>
                in Inr (row, w\<lparr>users := map (\<lambda>r. if row_email r = em then row else r) (users w),
                                users_id_seq := Suc (users_id_seq w)\<rparr>)))
      | _ \<Rightarrow> Inl (Error ''value too long for type character varying''))"

text \<open>
  \<^verbatim>\<open>saveUserToDatabase\<close>: the upsert, then the completion entry (24 hours) and the
  removal of the pending entry. The three steps are not a transaction: an error of
  Redis leaves the row written.
\<close>

definition saveUserToDatabase :: "nat \<Rightarrow> user_data \<Rightarrow> world \<Rightarrow> (error + user_row) \<times> world" where
  "saveUserToDatabase t userData w =
     (case pool_connect w of
        Inl e \<Rightarrow> (Inl e, w)
      | Inr c \<Rightarrow>
     (case insert_on_conflict t userData w of
        Inl e \<Rightarrow> (Inl e, w)
      | Inr (row, w1) \<Rightarrow>
          (case getRedisClient w1 of
             Inl e \<Rightarrow> (Inl e, w1)
           | Inr c \<Rightarrow>
               (case setEx (''user:completed:'' @ email userData) 86400 (SavedDoc t row) w1 of
                  Inl e \<Rightarrow> (Inl e, w1)
                | Inr w2 \<Rightarrow>
                    (case redis_del (''user:pending:'' @ email userData) w2 of
                       Inl e \<Rightarrow> (Inl e, w2)
                     | Inr w3 \<Rightarrow> (Inr row, w3))))))"

text \<open>
  \<^verbatim>\<open>getAllUsers\<close>: \<^verbatim>\<open>SELECT ... FROM users ORDER BY created_at DESC LIMIT $1 OFFSET $2\<close>.
  SQL leaves the order of rows of equal \<^verbatim>\<open>created_at\<close> open; the model takes one such
  order. The server refuses a negative \<^verbatim>\<open>LIMIT\<close> or \<^verbatim>\<open>OFFSET\<close> and a value outside
  \<^verbatim>\<open>bigint\<close> (the texts of these three errors are shortened). The defaults 100 and 0 of
  the two parameters are those the route passes as well.
\<close>

definition order_by_created_at_desc :: "user_row list \<Rightarrow> user_row list" where
  "order_by_created_at_desc rows = rev (sort_key created_at rows)"

definition bigint_max :: int where
  "bigint_max = 9223372036854775807"

definition getAllUsers :: "int \<Rightarrow> int \<Rightarrow> world \<Rightarrow> error + user_row list" where
  "getAllUsers limit offset w =
     (case pool_connect w of
        Inl e \<Rightarrow> Inl e
      | Inr c \<Rightarrow>
          if bigint_max < limit \<or> bigint_max < offset then
            Inl (Error ''value out of range for type bigint'')
          else if limit < 0 then Inl (Error ''LIMIT must not be negative'')
          else if offset < 0 then Inl (Error ''OFFSET must not be negative'')
          else Inr (take (nat limit) (drop (nat offset) (order_by_created_at_desc (users w)))))"

text \<open>
  \<^verbatim>\<open>getUserByEmail\<close>: the completion entry if Redis has one, else
  \<^verbatim>\<open>SELECT ... FROM users WHERE email = $1\<close>; a row found is cached for 3600 seconds.
\<close>

definition select_by_email :: "string \<Rightarrow> world \<Rightarrow> user_row list" where
  "select_by_email em w = filter (\<lambda>r. row_email r = em) (users w)"

definition getUserByEmail :: "string \<Rightarrow> world \<Rightarrow> (error + json_doc option) \<times> world" where
  "getUserByEmail em w =
     (case getRedisClient w of
        Inl e \<Rightarrow> (Inl e, w)
      | Inr c \<Rightarrow>
          (case redis_get (''user:completed:'' @ em) w of
             Inl e \<Rightarrow> (Inl e, w)
           | Inr (Some cachedUser) \<Rightarrow> (Inr (Some cachedUser), w)
           | Inr None \<Rightarrow>
               (case pool_connect w of
                  Inl e \<Rightarrow> (Inl e, w)
                | Inr c \<Rightarrow>
                    (case select_by_email em w of
                       [] \<Rightarrow> (Inr None, w)
                     | r # rs \<Rightarrow>
                         (case setEx (''user:completed:'' @ em) 3600 (RowDoc r) w of
                            Inl e \<Rightarrow> (Inl e, w)
                          | Inr w1 \<Rightarrow> (Inr (Some (RowDoc r)), w1))))))"

section \<open>routes/userRoutes.js\<close>

datatype response_body =
    Accepted string string
  | Failed string
  | Listing nat "user_row list"
  | Found json_doc

record http_response =
  status :: nat
  body :: response_body

text \<open>
  \<^verbatim>\<open>POST /api/users\<close>. The body is \<open>None\<close> when \<^verbatim>\<open>req.body\<close> is \<^verbatim>\<open>undefined\<close>. The \<^verbatim>\<open>catch\<close>
  answers every error of \<^verbatim>\<open>submitUserData\<close> the same way.
\<close>

definition post_users :: "joi_lib \<Rightarrow> nat \<Rightarrow> jsval option \<Rightarrow> world \<Rightarrow> http_response \<times> world" where
  "post_users lib t req_body w =
     (case req_body of
        None \<Rightarrow> (\<lparr>status = 400, body = Failed ''Request body is required''\<rparr>, w)
      | Some userData \<Rightarrow>
          if \<not> truthy userData then
            (\<lparr>status = 400, body = Failed ''Request body is required''\<rparr>, w)
          else
            (case submitUserData lib t userData w of
               (Inr result, w1) \<Rightarrow>
                 (\<lparr>status = 201, body = Accepted (message result) (result_email result)\<rparr>, w1)
             | (Inl e, w1) \<Rightarrow>
                 (\<lparr>status = 400,
                   body = Failed (if error_message e = [] then ''Failed to submit user data''
                                  else error_message e)\<rparr>, w1)))"

text \<open>
  \<^verbatim>\<open>GET /api/users\<close>. A query parameter is \<open>None\<close> when \<^verbatim>\<open>parseInt\<close> gives \<^verbatim>\<open>NaN\<close>;
  \<^verbatim>\<open>parseInt(...) || d\<close> takes the default for \<^verbatim>\<open>NaN\<close> and for 0.
\<close>

definition parse_or :: "int option \<Rightarrow> int \<Rightarrow> int" where
  "parse_or q d = (case q of None \<Rightarrow> d | Some n \<Rightarrow> if n = 0 then d else n)"

definition get_users :: "int option \<Rightarrow> int option \<Rightarrow> world \<Rightarrow> http_response" where
  "get_users limit_q offset_q w =
     (case getAllUsers (parse_or limit_q 100) (parse_or offset_q 0) w of
        Inr rows \<Rightarrow> \<lparr>status = 200, body = Listing (length rows) rows\<rparr>
      | Inl e \<Rightarrow> \<lparr>status = 500, body = Failed ''Failed to fetch users''\<rparr>)"

text \<open>\<^verbatim>\<open>GET /api/users/:email\<close>.\<close>

definition get_user :: "string \<Rightarrow> world \<Rightarrow> http_response \<times> world" where
  "get_user em w =
     (case getUserByEmail em w of
        (Inr None, w1) \<Rightarrow> (\<lparr>status = 404, body = Failed ''User not found''\<rparr>, w1)
      | (Inr (Some user), w1) \<Rightarrow> (\<lparr>status = 200, body = Found user\<rparr>, w1)
      | (Inl e, w1) \<Rightarrow> (\<lparr>status = 500, body = Failed ''Failed to fetch user''\<rparr>, w1))"

section \<open>config/kafka.js: the consumer\<close>

text \<open>
  The handler \<^verbatim>\<open>eachMessage\<close> of \<^verbatim>\<open>startConsumer\<close>: the body of its \<^verbatim>\<open>try\<close>
  (\<open>process_message\<close>; the text of the error of \<^verbatim>\<open>JSON.parse\<close> stands for the one the engine
  gives), and the \<^verbatim>\<open>catch\<close> that logs the error and returns.
\<close>

definition process_message :: "nat \<Rightarrow> kafka_message \<Rightarrow> world \<Rightarrow> (error + unit) \<times> world" where
  "process_message t msg w =
     (case mvalue msg of
        Malformed \<Rightarrow> (Inl (Error ''Unexpected token in JSON''), w)
      | Registration userData \<Rightarrow>
          (case saveUserToDatabase t userData w of
             (Inl e, w1) \<Rightarrow> (Inl e, w1)
           | (Inr row, w1) \<Rightarrow> (Inr (), w1)))"

definition eachMessage :: "nat \<Rightarrow> kafka_message \<Rightarrow> world \<Rightarrow> (error + unit) \<times> world" where
  "eachMessage t msg w =
     (case process_message t msg w of
        (Inl e, w1) \<Rightarrow> (Inr (), w1)
      | (Inr u, w1) \<Rightarrow> (Inr (), w1))"

text \<open>
  One round of \<^verbatim>\<open>consumer.run({ eachMessage })\<close> as KafkaJS runs it with its default
  \<^verbatim>\<open>autoCommit\<close>, on partition \<open>p\<close> of the topic: the message at the committed offset of
  the partition is handed to the handler; when the handler returns, the offset is
  resolved and committed; when the handler throws, the offset stays and the message is
  fetched again. The consumer is the only member of its group and handles one message
  at a time. Which partition the next message comes from depends on the answers of the
  brokers, not on the code: it is an argument of the round.
\<close>

definition consumer_poll :: "nat \<Rightarrow> nat \<Rightarrow> world \<Rightarrow> world" where
  "consumer_poll t p w =
     (let log = topic_log w ''user-registration'' p in
      if group_offset w p < length log then
        (case eachMessage t (log ! group_offset w p) w of
           (Inr u, w1) \<Rightarrow> w1\<lparr>group_offset := (group_offset w1)(p := Suc (group_offset w p))\<rparr>
         | (Inl e, w1) \<Rightarrow> w1)
      else w)"

text \<open>
  The subscription loop never ends by itself; \<open>consumer_run\<close> runs one round for each
  pair of a time and a partition of the list. \<open>consumer_trace\<close> is the list of the calls
  of the handler that these rounds make: the partition and the offset of the message of
  each call, in the order of the calls.
\<close>

fun consumer_run :: "(nat \<times> nat) list \<Rightarrow> world \<Rightarrow> world" where
  "consumer_run [] w = w"
| "consumer_run ((t, p) # rounds) w = consumer_run rounds (consumer_poll t p w)"

fun consumer_trace :: "(nat \<times> nat) list \<Rightarrow> world \<Rightarrow> (nat \<times> nat) list" where
  "consumer_trace [] w = []"
| "consumer_trace ((t, p) # rounds) w =
     (if group_offset w p < length (topic_log w ''user-registration'' p)
      then (p, group_offset w p) # consumer_trace rounds (consumer_poll t p w)
      else consumer_trace rounds (consumer_poll t p w))"

section \<open>The rules of the validator in the words of the specification\<close>

text \<open>
  Given and family name of length 2 to 100, an email address, the two categorical
  attributes each in its enumerated set, an occupation of length 2 to 255; an absent
  property, or one that is not a string, satisfies no rule.
\<close>

definition six_fields :: "string list" where
  "six_fields = [''firstName'', ''lastName'', ''email'', ''gender'', ''sex'', ''occupation'']"

definition rule_ok :: "joi_lib \<Rightarrow> string \<Rightarrow> jsval option \<Rightarrow> bool" where
  "rule_ok lib field v =
     (case v of
        Some (JStr s) \<Rightarrow>
          (if field = ''firstName'' \<or> field = ''lastName'' then 2 \<le> length s \<and> length s \<le> 100
           else if field = ''email'' then valid_email lib s
           else if field = ''gender'' then
             s \<in> {''male'', ''female'', ''non-binary'', ''prefer-not-to-say''}
           else if field = ''sex'' then s \<in> {''male'', ''female'', ''intersex''}
           else if field = ''occupation'' then 2 \<le> length s \<and> length s \<le> 255
           else False)
      | _ \<Rightarrow> False)"

text \<open>
  The kind of error reported for a field that breaks its rule, by what is wrong with the
  value: absent; outside the enumerated set; not a string; empty; not an email address;
  shorter than 2; longer than the maximum.
\<close>

definition expected_code :: "string \<Rightarrow> jsval option \<Rightarrow> joi_code" where
  "expected_code field v =
     (case v of
        None \<Rightarrow> any_required
      | Some j \<Rightarrow>
          if field = ''gender'' then
            any_only [''male'', ''female'', ''non-binary'', ''prefer-not-to-say'']
          else if field = ''sex'' then any_only [''male'', ''female'', ''intersex'']
          else
            (case j of
               JStr s \<Rightarrow>
                 if s = [] then string_empty
                 else if field = ''email'' then string_email
                 else if length s < 2 then string_min 2
                 else string_max (if field = ''occupation'' then 255 else 100)
             | _ \<Rightarrow> string_base))"

section \<open>Concrete inputs\<close>

text \<open>
  A stand-in for the two parameters of Joi, used to evaluate examples: an address is
  accepted when a non-empty local part is followed by one \<open>@\<close> and a domain with a dot;
  the texts are those of Joi 17.
\<close>

definition simple_email :: "string \<Rightarrow> bool" where
  "simple_email s =
     (let local_part = takeWhile (\<lambda>c. c \<noteq> CHR ''@'') s;
          domain = drop (Suc (length local_part)) s
      in local_part \<noteq> [] \<and> length local_part < length s \<and>
         CHR ''.'' \<in> set domain \<and> CHR ''@'' \<notin> set domain)"

fun join_comma :: "string list \<Rightarrow> string" where
  "join_comma [] = []"
| "join_comma [x] = x"
| "join_comma (x # y # ys) = x @ '', '' @ join_comma (y # ys)"

definition digit :: "nat \<Rightarrow> char" where
  "digit n = ''0123456789'' ! n"

function show_nat :: "nat \<Rightarrow> string" where
  "show_nat n = (if n < 10 then [digit n] else show_nat (n div 10) @ [digit (n mod 10)])"
  by pat_completeness auto
termination
  by (relation "measure (\<lambda>n. n)") auto

fun joi17_message :: "string \<Rightarrow> joi_code \<Rightarrow> string" where
  "joi17_message l any_required = [CHR 0x22] @ l @ [CHR 0x22] @ '' is required''"
| "joi17_message l (any_only vs) =
     [CHR 0x22] @ l @ [CHR 0x22] @ '' must be one of ['' @ join_comma vs @ '']''"
| "joi17_message l string_base = [CHR 0x22] @ l @ [CHR 0x22] @ '' must be a string''"
| "joi17_message l string_empty = [CHR 0x22] @ l @ [CHR 0x22] @ '' is not allowed to be empty''"
| "joi17_message l (string_min n) =
     [CHR 0x22] @ l @ [CHR 0x22] @ '' length must be at least '' @ show_nat n @ '' characters long''"
| "joi17_message l (string_max n) =
     [CHR 0x22] @ l @ [CHR 0x22] @ '' length must be less than or equal to '' @ show_nat n @
     '' characters long''"
| "joi17_message l string_email = [CHR 0x22] @ l @ [CHR 0x22] @ '' must be a valid email''"
| "joi17_message l object_unknown = [CHR 0x22] @ l @ [CHR 0x22] @ '' is not allowed''"
| "joi17_message l object_base = [CHR 0x22] @ l @ [CHR 0x22] @ '' must be of type object''"

definition joi17 :: joi_lib where
  "joi17 = \<lparr>valid_email = simple_email, detail_message = joi17_message\<rparr>"

text \<open>The submission of the scenario of the specification, as a request body and as a record.\<close>

definition ann_fields :: "(string \<times> jsval) list" where
  "ann_fields =
     [(''firstName'', JStr ''Ann''), (''lastName'', JStr ''Lee''),
      (''email'', JStr ''ann@x.com''), (''gender'', JStr ''female''),
      (''sex'', JStr ''female''), (''occupation'', JStr ''Engineer'')]"

definition ann_body :: jsval where
  "ann_body = JObj ann_fields"

definition ann :: user_data where
  "ann =
     \<lparr>firstName = ''Ann'', lastName = ''Lee'', email = ''ann@x.com'', gender = ''female'',
      sex = ''female'', occupation = ''Engineer''\<rparr>"

text \<open>A submission with a family name of one character and no occupation.\<close>

definition two_wrong :: "(string \<times> jsval) list" where
  "two_wrong =
     [(''firstName'', JStr ''Ann''), (''lastName'', JStr ''L''),
      (''email'', JStr ''ann@x.com''), (''gender'', JStr ''female''),
      (''sex'', JStr ''female'')]"

text \<open>The same submission with one more property.\<close>

definition ann_extra :: "(string \<times> jsval) list" where
  "ann_extra =
     [(''firstName'', JStr ''Ann''), (''lastName'', JStr ''Lee''),
      (''email'', JStr ''ann@x.com''), (''gender'', JStr ''female''),
      (''sex'', JStr ''female''), (''occupation'', JStr ''Engineer''),
      (''nickname'', JStr ''Annie'')]"

text \<open>The submission of the scenario with a given name of one character.\<close>

definition short_name :: "(string \<times> jsval) list" where
  "short_name =
     [(''firstName'', JStr ''A''), (''lastName'', JStr ''Lee''),
      (''email'', JStr ''ann@x.com''), (''gender'', JStr ''female''),
      (''sex'', JStr ''female''), (''occupation'', JStr ''Engineer'')]"

text \<open>States in which Redis, or the Kafka broker, refuses connections.\<close>

definition world_redis_down :: world where
  "world_redis_down = world0\<lparr>redis_fault := Some ''connect ECONNREFUSED 127.0.0.1:6379''\<rparr>"

definition world_kafka_down :: world where
  "world_kafka_down = world0\<lparr>kafka_fault := Some ''Connection error: connect ECONNREFUSED 127.0.0.1:9092''\<rparr>"

text \<open>The row and the state that persisting the submission at time 9 produces.\<close>

definition ann_row :: user_row where
  "ann_row =
     \<lparr>row_id = 1, first_name = ''Ann'', last_name = ''Lee'', row_email = ''ann@x.com'',
      row_gender = ''female'', row_sex = ''female'', row_occupation = ''Engineer'',
      created_at = 9, updated_at = 9\<rparr>"

definition world_ann_saved :: world where
  "world_ann_saved =
     world0\<lparr>users := [ann_row], users_id_seq := 1,
            redis_store := [''user:completed:ann@x.com'' \<mapsto> (86400, SavedDoc 9 ann_row)]\<rparr>"

text \<open>An empty table whose sequence has one value left.\<close>

definition world_last_id :: world where
  "world_last_id = world0\<lparr>users_id_seq := 2147483646\<rparr>"




text \<open>
  A state in which PostgreSQL refuses connections while the submission of the scenario
  waits in partition 1 of the topic.
\<close>

definition world_pg_down :: world where
  "world_pg_down =
     world0\<lparr>pg_fault := Some ''connect ECONNREFUSED 127.0.0.1:5432'',
            counters := (\<lambda>topic. 0)(''user-registration'' := 1),
            topic_log := (\<lambda>topic p. [])(''user-registration'' := (\<lambda>p. [])(1 :=
              [\<lparr>mkey = None, mvalue = Registration ann, mtimestamp = 7\<rparr>]))\<rparr>"

text \<open>
  The submission of the scenario and a later correction of it, with the same email and
  another occupation; the state after both were submitted, at times 7 and 8, to the
  state in which nothing is stored.
\<close>

definition ann_corrected_body :: jsval where
  "ann_corrected_body =
     JObj [(''firstName'', JStr ''Ann''), (''lastName'', JStr ''Lee''),
           (''email'', JStr ''ann@x.com''), (''gender'', JStr ''female''),
           (''sex'', JStr ''female''), (''occupation'', JStr ''Manager'')]"

definition ann_corrected :: user_data where
  "ann_corrected = ann\<lparr>occupation := ''Manager''\<rparr>"

definition ann_corrected_row :: user_row where
  "ann_corrected_row = ann_row\<lparr>row_occupation := ''Manager''\<rparr>"

definition world_two_submitted :: world where
  "world_two_submitted =
     snd (submitUserData joi17 8 ann_corrected_body (snd (submitUserData joi17 7 ann_body world0)))"

section \<open>Health aggregation\<close>

lemma hservices_health:
  "hservices (health w) =
     \<lparr>redis = check_redis w, postgres = check_postgres w, kafka = check_kafka w\<rparr>"
  by (simp add: health_def Let_def)

lemma statusCode_health:
  "statusCode (health w) =
     (if check_redis w = Healthy \<and> check_postgres w = Healthy \<and> check_kafka w = Healthy
      then 200 else 503)"
  by (simp add: health_def Let_def)

text \<open>
  C6. The aggregate health check answers 200 (healthy) exactly when the three dependency
  checks report healthy, and 503 otherwise. Each entry of the detail is the outcome of
  that dependency's own check (handle set and store answering) and of nothing else, so
  when exactly one check fails the answer is 503 and the other two entries stay healthy.
\<close>

theorem health_composite_iff_all_healthy:
  "(statusCode (health w) = 200 \<longleftrightarrow>
      redis (hservices (health w)) = Healthy \<and>
      postgres (hservices (health w)) = Healthy \<and>
      kafka (hservices (health w)) = Healthy) \<and>
   (statusCode (health w) = 200 \<or> statusCode (health w) = 503) \<and>
   redis (hservices (health w)) = (if redisClient w \<and> redis_fault w = None then Healthy else Unhealthy) \<and>
   postgres (hservices (health w)) = (if pool w \<and> pg_fault w = None then Healthy else Unhealthy) \<and>
   kafka (hservices (health w)) = (if producer w then Healthy else Unhealthy)"
proof -
  have r: "check_redis w = (if redisClient w \<and> redis_fault w = None then Healthy else Unhealthy)"
    by (simp add: check_redis_def getRedisClient_def redis_ping_def split: option.splits)
  have p: "check_postgres w = (if pool w \<and> pg_fault w = None then Healthy else Unhealthy)"
    by (simp add: check_postgres_def getPool_def pool_query_select1_def split: option.splits)
  have k: "check_kafka w = (if producer w then Healthy else Unhealthy)"
    by (simp add: check_kafka_def getProducer_def)
  show ?thesis
    unfolding hservices_health statusCode_health
    by (simp add: r p k)
qed


text \<open>
  C6 at two states: all dependencies up, and PostgreSQL alone not answering.
\<close>

theorem health_composite_witness:
  "statusCode (health world0) = 200 \<and>
   health (world0\<lparr>pg_fault := Some ''timeout''\<rparr>) =
     \<lparr>statusCode = 503, hmessage = ''OK'',
      hservices = \<lparr>redis = Healthy, postgres = Unhealthy, kafka = Healthy\<rparr>\<rparr>"
  using health_composite_iff_all_healthy [of world0]
    health_composite_iff_all_healthy [of "world0\<lparr>pg_fault := Some ''timeout''\<rparr>"]
  by (simp add: world0_def health_def check_redis_def check_postgres_def check_kafka_def
      getRedisClient_def redis_ping_def getPool_def pool_query_select1_def getProducer_def)

text \<open>
  C10. The entry of the relay in the health check is healthy exactly when the producer
  handle is set; the reachability of the broker (the field \<open>kafka_fault\<close>) has no part in it.
\<close>

theorem relay_health_is_handle_only:
  "(kafka (hservices (health w)) = Healthy \<longleftrightarrow> producer w) \<and>
   kafka (hservices (health (w\<lparr>kafka_fault := f\<rparr>))) = kafka (hservices (health w))"
  by (simp add: hservices_health check_kafka_def getProducer_def)

text \<open>
  C10 at two states: the broker unreachable with the handle set, and the handle not set.
\<close>

theorem relay_health_is_handle_only_witness:
  "kafka (hservices (health (world0\<lparr>kafka_fault := Some ''broker unreachable''\<rparr>))) = Healthy \<and>
   kafka (hservices (health (world0\<lparr>producer := False\<rparr>))) = Unhealthy"
  using relay_health_is_handle_only [of world0 "Some ''broker unreachable''"]
    relay_health_is_handle_only [of "world0\<lparr>producer := False\<rparr>" None]
  by (simp add: world0_def hservices_health check_kafka_def getProducer_def)

section \<open>The validator\<close>

lemma find_filter:
  "find P xs = (case filter P xs of [] \<Rightarrow> None | x # ys \<Rightarrow> Some x)"
  by (induction xs) auto

lemma validate_keys_None:
  "validate_keys lib sch obj = None \<longleftrightarrow>
     list_all (\<lambda>(k, s). validate_item lib s (map_of obj k) = None) sch"
  by (induction sch) (auto split: option.splits)

lemma validate_keys_Some:
  "validate_keys lib sch obj = Some (k, c) \<Longrightarrow>
     \<exists>s. (k, s) \<in> set sch \<and> validate_item lib s (map_of obj k) = Some c"
  by (induction sch) (auto split: option.splits)

lemma validate_item_valid_None:
  "validate_item lib (JoiValid vs) v = None \<longleftrightarrow> (\<exists>s. v = Some (JStr s) \<and> s \<in> set vs)"
  by (cases "(lib, JoiValid vs, v)" rule: validate_item.cases) auto

lemma userSchema_each:
  assumes "(k, s) \<in> set userSchema"
    and "P ''firstName'' (JoiString [MinLen 2, MaxLen 100])"
    and "P ''lastName'' (JoiString [MinLen 2, MaxLen 100])"
    and "P ''email'' (JoiString [EmailRule])"
    and "P ''gender'' (JoiValid [''male'', ''female'', ''non-binary'', ''prefer-not-to-say''])"
    and "P ''sex'' (JoiValid [''male'', ''female'', ''intersex''])"
    and "P ''occupation'' (JoiString [MinLen 2, MaxLen 255])"
  shows "P k s"
proof -
  have "list_all (\<lambda>(k, s). P k s) userSchema"
    by (simp add: userSchema_def assms(2-))
  with assms(1) show ?thesis
    unfolding list_all_iff by fast
qed

lemma validate_item_not_string:
  assumes "\<And>x. v \<noteq> Some (JStr x)"
  shows "validate_item lib s v \<noteq> None"
  using assms by (cases "(lib, s, v)" rule: validate_item.cases) auto

lemma rule_ok_not_string:
  assumes "\<And>x. v \<noteq> Some (JStr x)"
  shows "\<not> rule_ok lib k v"
proof (cases v)
  case None
  then show ?thesis by (simp add: rule_ok_def)
next
  case (Some j)
  show ?thesis
  proof (cases j)
    case (JStr x)
    with Some assms show ?thesis by blast
  qed (simp_all add: Some rule_ok_def)
qed

lemma validate_item_length:
  "validate_item lib (JoiString [MinLen 2, MaxLen n]) (Some (JStr x)) = None \<longleftrightarrow>
     2 \<le> length x \<and> length x \<le> n"
  by (cases "x = []") (auto simp: not_less)

lemma validate_item_email:
  "\<not> valid_email lib [] \<Longrightarrow>
   validate_item lib (JoiString [EmailRule]) (Some (JStr x)) = None \<longleftrightarrow> valid_email lib x"
  by (cases "x = []") auto

lemma rule_ok_iff_string:
  assumes "\<not> valid_email lib []" and "(k, s) \<in> set userSchema"
  shows "validate_item lib s (Some (JStr x)) = None \<longleftrightarrow> rule_ok lib k (Some (JStr x))"
  using assms(2)
proof (rule userSchema_each)
  show "validate_item lib (JoiString [EmailRule]) (Some (JStr x)) = None \<longleftrightarrow>
        rule_ok lib ''email'' (Some (JStr x))"
    unfolding validate_item_email [OF assms(1)] by (simp add: rule_ok_def)
qed (simp_all add: validate_item_length validate_item_valid_None rule_ok_def del: validate_item.simps)

lemma rule_ok_iff:
  assumes "\<not> valid_email lib []" and "(k, s) \<in> set userSchema"
  shows "validate_item lib s v = None \<longleftrightarrow> rule_ok lib k v"
proof (cases "\<exists>x. v = Some (JStr x)")
  case True
  then show ?thesis using rule_ok_iff_string [OF assms] by auto
next
  case False
  then show ?thesis using validate_item_not_string [of v lib s] rule_ok_not_string [of v lib k]
    by auto
qed

lemma map_fst_userSchema: "map fst userSchema = six_fields"
  by (simp add: userSchema_def six_fields_def)

lemma validate_keys_userSchema_None:
  assumes "\<not> valid_email lib []"
  shows "validate_keys lib userSchema obj = None \<longleftrightarrow>
           list_all (\<lambda>f. rule_ok lib f (map_of obj f)) six_fields"
proof -
  have "list_all (\<lambda>(k, s). validate_item lib s (map_of obj k) = None) userSchema \<longleftrightarrow>
        list_all (\<lambda>(k, s). rule_ok lib k (map_of obj k)) userSchema"
  proof -
    have "(validate_item lib s (map_of obj k) = None) = rule_ok lib k (map_of obj k)"
      if "(k, s) \<in> set userSchema" for k s
      using that by (rule rule_ok_iff [OF assms])
    then show ?thesis unfolding list_all_iff by blast
  qed
  also have "\<dots> \<longleftrightarrow> list_all (\<lambda>f. rule_ok lib f (map_of obj f)) (map fst userSchema)"
    by (auto simp: list_all_iff)
  finally show ?thesis by (simp add: validate_keys_None map_fst_userSchema)
qed

lemma validate_keys_userSchema_Some:
  assumes "\<not> valid_email lib []" and "validate_keys lib userSchema obj = Some (k, c)"
  shows "k \<in> set six_fields \<and> \<not> rule_ok lib k (map_of obj k)"
proof -
  from validate_keys_Some [OF assms(2)] obtain s where
    s: "(k, s) \<in> set userSchema" "validate_item lib s (map_of obj k) = Some c" by blast
  from s(1) have "k \<in> set (map fst userSchema)" by force
  moreover from rule_ok_iff [OF assms(1) s(1), of "map_of obj k"] s(2) have "\<not> rule_ok lib k (map_of obj k)"
    by simp
  ultimately show ?thesis by (simp add: map_fst_userSchema)
qed


text \<open>The validator reports the first field, in the order of the schema, that breaks its rule.\<close>

lemma validate_item_length_code:
  "validate_item lib (JoiString [MinLen 2, MaxLen n]) v =
     (case v of
        None \<Rightarrow> Some any_required
      | Some (JStr s) \<Rightarrow>
          if s = [] then Some string_empty
          else if length s < 2 then Some (string_min 2)
          else if n < length s then Some (string_max n)
          else None
      | Some _ \<Rightarrow> Some string_base)"
proof (cases v)
  case None
  then show ?thesis by simp
next
  case (Some j)
  then show ?thesis by (cases j) simp_all
qed

lemma validate_item_email_code:
  "validate_item lib (JoiString [EmailRule]) v =
     (case v of
        None \<Rightarrow> Some any_required
      | Some (JStr s) \<Rightarrow>
          if s = [] then Some string_empty
          else if valid_email lib s then None
          else Some string_email
      | Some _ \<Rightarrow> Some string_base)"
proof (cases v)
  case None
  then show ?thesis by simp
next
  case (Some j)
  then show ?thesis by (cases j) simp_all
qed

lemma validate_item_valid_code:
  "validate_item lib (JoiValid vs) v =
     (case v of
        None \<Rightarrow> Some any_required
      | Some (JStr s) \<Rightarrow> if s \<in> set vs then None else Some (any_only vs)
      | Some _ \<Rightarrow> Some (any_only vs))"
proof (cases v)
  case None
  then show ?thesis by simp
next
  case (Some j)
  then show ?thesis by (cases j) simp_all
qed

lemma validate_item_code:
  assumes "\<not> valid_email lib []" and "(k, s) \<in> set userSchema"
  shows "validate_item lib s v = (if rule_ok lib k v then None else Some (expected_code k v))"
  using assms(2)
proof (rule userSchema_each)
  show "validate_item lib (JoiString [EmailRule]) v =
        (if rule_ok lib ''email'' v then None else Some (expected_code ''email'' v))"
    using assms(1) unfolding validate_item_email_code
    by (auto simp: rule_ok_def expected_code_def split: option.splits jsval.splits)
qed (simp_all add: validate_item_length_code validate_item_valid_code rule_ok_def expected_code_def
       not_less del: validate_item.simps split: option.splits jsval.splits)

lemma validate_keys_find:
  assumes "\<And>k s. (k, s) \<in> set sch \<Longrightarrow>
             validate_item lib s (map_of obj k) = (if ok k then None else Some (code k))"
  shows "validate_keys lib sch obj =
           map_option (\<lambda>f. (f, code f)) (find (\<lambda>f. \<not> ok f) (map fst sch))"
  using assms
proof (induction sch)
  case Nil
  then show ?case by simp
next
  case (Cons a sch)
  obtain k s where a: "a = (k, s)" by (cases a)
  from Cons.prems [of k s] have here:
    "validate_item lib s (map_of obj k) = (if ok k then None else Some (code k))"
    by (simp add: a)
  from Cons.IH Cons.prems have rest: "validate_keys lib sch obj =
           map_option (\<lambda>f. (f, code f)) (find (\<lambda>f. \<not> ok f) (map fst sch))"
    by simp
  show ?case by (simp add: a here rest)
qed

lemma validate_keys_first:
  assumes "\<not> valid_email lib []"
  shows "validate_keys lib userSchema obj =
           map_option (\<lambda>f. (f, expected_code f (map_of obj f)))
             (find (\<lambda>f. \<not> rule_ok lib f (map_of obj f)) six_fields)"
  unfolding map_fst_userSchema [symmetric]
  by (rule validate_keys_find) (rule validate_item_code [OF assms])

lemma find_first_offender:
  "\<not> list_all P xs \<Longrightarrow> \<exists>x. find (\<lambda>x. \<not> P x) xs = Some x"
  by (induction xs) auto

lemma unknown_keys_Nil:
  "unknown_keys userSchema obj = [] \<longleftrightarrow> set (map fst obj) \<subseteq> set six_fields"
  unfolding unknown_keys_def map_fst_userSchema filter_empty_conv by auto

lemma unknown_keys_Cons:
  "unknown_keys userSchema obj = k # ks \<Longrightarrow> k \<in> set (map fst obj) \<and> k \<notin> set six_fields"
proof -
  assume "unknown_keys userSchema obj = k # ks"
  then have "k \<in> set (filter (\<lambda>k. k \<notin> set six_fields) (map fst obj))"
    unfolding unknown_keys_def map_fst_userSchema by simp
  then show ?thesis by simp
qed

lemma rule_ok_str_prop:
  "rule_ok lib f (map_of obj f) \<Longrightarrow> map_of obj f = Some (JStr (str_prop obj f))"
proof -
  assume "rule_ok lib f (map_of obj f)"
  with rule_ok_not_string [of "map_of obj f" lib f] obtain x where "map_of obj f = Some (JStr x)"
    by blast
  then show ?thesis by (simp add: str_prop_def)
qed

text \<open>
  C8, amended. Let the email test of Joi refuse the empty string. For every object whose
  six fields satisfy the rules and which has no other property, \<open>validateUserData\<close> returns
  the record of these six strings, unchanged. For every object with a missing or invalid
  field it fails, and the message is the one Joi renders for the first field, in the
  order of the schema, that breaks its rule, with the kind of error that this field's
  value calls for. An object whose six fields are valid but which carries other
  properties is refused too, with the message for the first of them. A body that is not an
  object is refused under the label \<open>value\<close>. The function has no state to change.
\<close>

theorem validateUserData_spec:
  assumes "\<not> valid_email lib []"
  shows
    "(list_all (\<lambda>f. rule_ok lib f (map_of obj f)) six_fields \<and> set (map fst obj) \<subseteq> set six_fields \<longrightarrow>
        (\<exists>v. validateUserData lib (JObj obj) = Inr v \<and>
             map_of obj ''firstName'' = Some (JStr (firstName v)) \<and>
             map_of obj ''lastName'' = Some (JStr (lastName v)) \<and>
             map_of obj ''email'' = Some (JStr (email v)) \<and>
             map_of obj ''gender'' = Some (JStr (gender v)) \<and>
             map_of obj ''sex'' = Some (JStr (sex v)) \<and>
             map_of obj ''occupation'' = Some (JStr (occupation v)))) \<and>
     (\<not> list_all (\<lambda>f. rule_ok lib f (map_of obj f)) six_fields \<longrightarrow>
        (\<exists>f. find (\<lambda>f. \<not> rule_ok lib f (map_of obj f)) six_fields = Some f \<and>
             f \<in> set six_fields \<and> \<not> rule_ok lib f (map_of obj f) \<and>
             validateUserData lib (JObj obj) =
               Inl (Error (''Validation error: '' @
                           detail_message lib f (expected_code f (map_of obj f)))))) \<and>
     (list_all (\<lambda>f. rule_ok lib f (map_of obj f)) six_fields \<and> \<not> set (map fst obj) \<subseteq> set six_fields \<longrightarrow>
        (\<exists>k. find (\<lambda>k. k \<notin> set six_fields) (map fst obj) = Some k \<and>
             k \<in> set (map fst obj) \<and> k \<notin> set six_fields \<and>
             validateUserData lib (JObj obj) =
               Inl (Error (''Validation error: '' @ detail_message lib k object_unknown)))) \<and>
     ((\<forall>kvs. other \<noteq> JObj kvs) \<longrightarrow>
        validateUserData lib other =
          Inl (Error (''Validation error: '' @ detail_message lib ''value'' object_base)))"
proof (intro conjI impI)
  assume ok: "list_all (\<lambda>f. rule_ok lib f (map_of obj f)) six_fields \<and> set (map fst obj) \<subseteq> set six_fields"
  then have keys: "validate_keys lib userSchema obj = None"
    and unk: "unknown_keys userSchema obj = []"
    by (simp_all add: validate_keys_userSchema_None [OF assms] unknown_keys_Nil)
  have v: "validateUserData lib (JObj obj) = Inr (as_user_data obj)"
    by (simp add: validateUserData_def schema_validate_def keys unk)
  from ok have each: "rule_ok lib f (map_of obj f)" if "f \<in> set six_fields" for f
    using that by (simp add: list_all_iff)
  have "map_of obj f = Some (JStr (str_prop obj f))" if "f \<in> set six_fields" for f
    using each [OF that] by (rule rule_ok_str_prop)
  then show "\<exists>v. validateUserData lib (JObj obj) = Inr v \<and>
             map_of obj ''firstName'' = Some (JStr (firstName v)) \<and>
             map_of obj ''lastName'' = Some (JStr (lastName v)) \<and>
             map_of obj ''email'' = Some (JStr (email v)) \<and>
             map_of obj ''gender'' = Some (JStr (gender v)) \<and>
             map_of obj ''sex'' = Some (JStr (sex v)) \<and>
             map_of obj ''occupation'' = Some (JStr (occupation v))"
    unfolding v by (simp add: as_user_data_def six_fields_def)
next
  assume bad: "\<not> list_all (\<lambda>f. rule_ok lib f (map_of obj f)) six_fields"
  then obtain f where f: "find (\<lambda>f. \<not> rule_ok lib f (map_of obj f)) six_fields = Some f"
    using find_first_offender by blast
  then have keys: "validate_keys lib userSchema obj = Some (f, expected_code f (map_of obj f))"
    by (simp add: validate_keys_first [OF assms])
  have "validateUserData lib (JObj obj) =
          Inl (Error (''Validation error: '' @
                      detail_message lib f (expected_code f (map_of obj f))))"
    by (simp add: validateUserData_def schema_validate_def keys)
  with validate_keys_userSchema_Some [OF assms keys] f
  show "\<exists>f. find (\<lambda>f. \<not> rule_ok lib f (map_of obj f)) six_fields = Some f \<and>
             f \<in> set six_fields \<and> \<not> rule_ok lib f (map_of obj f) \<and>
             validateUserData lib (JObj obj) =
               Inl (Error (''Validation error: '' @
                           detail_message lib f (expected_code f (map_of obj f))))"
    by blast
next
  assume extra: "list_all (\<lambda>f. rule_ok lib f (map_of obj f)) six_fields \<and>
                 \<not> set (map fst obj) \<subseteq> set six_fields"
  then have keys: "validate_keys lib userSchema obj = None"
    by (simp add: validate_keys_userSchema_None [OF assms])
  from extra have "unknown_keys userSchema obj \<noteq> []"
    by (simp add: unknown_keys_Nil)
  then obtain k ks where k: "unknown_keys userSchema obj = k # ks"
    by (cases "unknown_keys userSchema obj") auto
  have "validateUserData lib (JObj obj) =
          Inl (Error (''Validation error: '' @ detail_message lib k object_unknown))"
    by (simp add: validateUserData_def schema_validate_def keys k)
  moreover from k have "find (\<lambda>k. k \<notin> set six_fields) (map fst obj) = Some k"
    unfolding unknown_keys_def map_fst_userSchema by (simp add: find_filter)
  ultimately show "\<exists>k. find (\<lambda>k. k \<notin> set six_fields) (map fst obj) = Some k \<and>
             k \<in> set (map fst obj) \<and> k \<notin> set six_fields \<and>
             validateUserData lib (JObj obj) =
               Inl (Error (''Validation error: '' @ detail_message lib k object_unknown))"
    using unknown_keys_Cons [OF k] by blast
next
  assume "\<forall>kvs. other \<noteq> JObj kvs"
  then show "validateUserData lib other =
          Inl (Error (''Validation error: '' @ detail_message lib ''value'' object_base))"
    by (cases other) (simp_all add: validateUserData_def schema_validate_def)
qed

lemma joi17_no_empty_email: "\<not> valid_email joi17 []"
  by (simp add: joi17_def simple_email_def)

lemma ann_extra_rules: "list_all (\<lambda>f. rule_ok joi17 f (map_of ann_extra f)) six_fields"
  by (simp add: six_fields_def rule_ok_def ann_extra_def joi17_def simple_email_def)

text \<open>
  C8 as stated fails: the submission of the scenario with a seventh property has all six
  fields present and valid, and the validator refuses it.
\<close>

theorem validator_refuses_unknown_key:
  "list_all (\<lambda>f. rule_ok joi17 f (map_of ann_extra f)) six_fields \<and>
   validateUserData joi17 (JObj ann_extra) =
     Inl (Error (''Validation error: '' @ [CHR 0x22] @ ''nickname'' @ [CHR 0x22] @ '' is not allowed''))"
  by (simp add: ann_extra_rules)
     (simp add: validateUserData_def schema_validate_def userSchema_def unknown_keys_def
        ann_extra_def joi17_def simple_email_def)


lemma ann_valid: "validateUserData joi17 ann_body = Inr ann"
  by (simp add: validateUserData_def schema_validate_def ann_body_def ann_fields_def userSchema_def joi17_def
      simple_email_def unknown_keys_def as_user_data_def str_prop_def ann_def)

text \<open>
  C8, amended, at the submission of the scenario, at the one with a given name of one
  character, at one with two offending fields (the family name is reported, not the
  missing occupation), at the one with a seventh property and at an array.
\<close>

theorem validateUserData_spec_witness:
  "\<not> valid_email joi17 [] \<and>
   (\<exists>v. validateUserData joi17 (JObj ann_fields) = Inr v \<and>
        map_of ann_fields ''firstName'' = Some (JStr (firstName v)) \<and>
        map_of ann_fields ''email'' = Some (JStr (email v))) \<and>
   validateUserData joi17 (JObj short_name) =
     Inl (Error (''Validation error: '' @ detail_message joi17 ''firstName'' (string_min 2))) \<and>
   \<not> rule_ok joi17 ''occupation'' (map_of two_wrong ''occupation'') \<and>
   validateUserData joi17 (JObj two_wrong) =
     Inl (Error (''Validation error: '' @ detail_message joi17 ''lastName'' (string_min 2))) \<and>
   (\<exists>k. k \<in> set (map fst ann_extra) \<and> k \<notin> set six_fields \<and>
        validateUserData joi17 (JObj ann_extra) =
          Inl (Error (''Validation error: '' @ detail_message joi17 k object_unknown))) \<and>
   validateUserData joi17 (JArr []) =
     Inl (Error (''Validation error: '' @ detail_message joi17 ''value'' object_base))"
proof -
  note spec = validateUserData_spec [OF joi17_no_empty_email]
  have a: "list_all (\<lambda>f. rule_ok joi17 f (map_of ann_fields f)) six_fields \<and>
           set (map fst ann_fields) \<subseteq> set six_fields"
    by (simp add: six_fields_def rule_ok_def ann_fields_def joi17_def simple_email_def)
  from spec [of ann_fields "JArr []"] a
  have 1: "\<exists>v. validateUserData joi17 (JObj ann_fields) = Inr v \<and>
        map_of ann_fields ''firstName'' = Some (JStr (firstName v)) \<and>
        map_of ann_fields ''email'' = Some (JStr (email v))"
    by blast
  have b: "\<not> list_all (\<lambda>f. rule_ok joi17 f (map_of short_name f)) six_fields"
    "find (\<lambda>f. \<not> rule_ok joi17 f (map_of short_name f)) six_fields = Some ''firstName''"
    "expected_code ''firstName'' (map_of short_name ''firstName'') = string_min 2"
    by (simp_all add: six_fields_def rule_ok_def expected_code_def short_name_def)
  from spec [of short_name "JArr []"] b
  have 2: "validateUserData joi17 (JObj short_name) =
     Inl (Error (''Validation error: '' @ detail_message joi17 ''firstName'' (string_min 2)))"
    by auto
  have c: "\<not> list_all (\<lambda>f. rule_ok joi17 f (map_of two_wrong f)) six_fields"
    "find (\<lambda>f. \<not> rule_ok joi17 f (map_of two_wrong f)) six_fields = Some ''lastName''"
    "expected_code ''lastName'' (map_of two_wrong ''lastName'') = string_min 2"
    "\<not> rule_ok joi17 ''occupation'' (map_of two_wrong ''occupation'')"
    by (simp_all add: six_fields_def rule_ok_def expected_code_def two_wrong_def)
  from spec [of two_wrong "JArr []"] c
  have 3: "validateUserData joi17 (JObj two_wrong) =
     Inl (Error (''Validation error: '' @ detail_message joi17 ''lastName'' (string_min 2)))"
    by auto
  have d: "list_all (\<lambda>f. rule_ok joi17 f (map_of ann_extra f)) six_fields \<and>
           \<not> set (map fst ann_extra) \<subseteq> set six_fields"
    by (simp add: ann_extra_rules) (simp add: six_fields_def ann_extra_def)
  from spec [of ann_extra "JArr []"] d
  have 4: "\<exists>k. k \<in> set (map fst ann_extra) \<and> k \<notin> set six_fields \<and>
        validateUserData joi17 (JObj ann_extra) =
          Inl (Error (''Validation error: '' @ detail_message joi17 k object_unknown))"
    by blast
  have e: "\<forall>kvs. JArr [] \<noteq> JObj kvs" by simp
  from spec [of ann_fields "JArr []"] e
  have 5: "validateUserData joi17 (JArr []) =
     Inl (Error (''Validation error: '' @ detail_message joi17 ''value'' object_base))"
    by blast
  from joi17_no_empty_email 1 2 c(4) 3 4 5 show ?thesis by (intro conjI)
qed

section \<open>Submission\<close>

lemma submitUserData_valid:
  assumes "validateUserData lib userData = Inr v"
  shows "submitUserData lib t userData w =
     (if \<not> redisClient w then
        (Inl (Error ''Redis client not initialized. Call connectRedis() first.''), w)
      else case redis_fault w of
        Some m \<Rightarrow> (Inl (Error m), w)
      | None \<Rightarrow>
          (let w1 = w\<lparr>redis_store := (redis_store w)(''user:pending:'' @ email v \<mapsto> (3600, PendingDoc v))\<rparr>
           in if \<not> producer w then (Inl (Error ''Kafka producer not initialized''), w1)
              else case kafka_fault w of
                Some m \<Rightarrow> (Inl (Error m), w1)
              | None \<Rightarrow>
                  (Inr \<lparr>success = True, message = ''User registration submitted successfully'',
                        result_email = email v\<rparr>,
                   w1\<lparr>counters := (counters w)
                        (''user-registration'' := Suc (counters w ''user-registration'')),
                      topic_log := (topic_log w)
                        (''user-registration'' := (topic_log w ''user-registration'')
                           (next_partition w ''user-registration'' :=
                              topic_log w ''user-registration''
                                (next_partition w ''user-registration'') @
                                [\<lparr>mkey = None, mvalue = Registration v, mtimestamp = t\<rparr>]))\<rparr>)))"
  by (simp add: submitUserData_def assms getRedisClient_def setEx_def sendMessage_def Let_def
      next_partition_def split: option.splits)

text \<open>
  C3, amended. For every submission that passes validation: when Redis and the producer
  work, the record is stored under \<open>user:pending:<email>\<close> with a time to live of 3600
  seconds and one message carrying it is appended to the topic, in the partition that
  is next in turn, the other partitions staying as they are; when the staging write
  fails (client never created, or Redis refusing the command) the error of that step is
  the result, the state is unchanged and nothing is published; when the publish fails,
  the staging entry is already written and the topic is unchanged, so the staging write
  comes first.
\<close>

theorem submit_stages_before_publish:
  assumes "validateUserData lib userData = Inr v"
  shows
    "(redisClient w \<and> redis_fault w = None \<and> producer w \<and> kafka_fault w = None \<longrightarrow>
        fst (submitUserData lib t userData w) =
          Inr \<lparr>success = True, message = ''User registration submitted successfully'',
               result_email = email v\<rparr> \<and>
        redis_store (snd (submitUserData lib t userData w)) (''user:pending:'' @ email v) =
          Some (3600, PendingDoc v) \<and>
        topic_log (snd (submitUserData lib t userData w)) ''user-registration'' =
          (topic_log w ''user-registration'')
            (next_partition w ''user-registration'' :=
               topic_log w ''user-registration'' (next_partition w ''user-registration'') @
                 [\<lparr>mkey = None, mvalue = Registration v, mtimestamp = t\<rparr>])) \<and>
     (\<not> redisClient w \<longrightarrow>
        submitUserData lib t userData w =
          (Inl (Error ''Redis client not initialized. Call connectRedis() first.''), w)) \<and>
     (redisClient w \<and> redis_fault w = Some m \<longrightarrow>
        submitUserData lib t userData w = (Inl (Error m), w)) \<and>
     (redisClient w \<and> redis_fault w = None \<and> (\<not> producer w \<or> kafka_fault w \<noteq> None) \<longrightarrow>
        (\<exists>e. fst (submitUserData lib t userData w) = Inl e) \<and>
        redis_store (snd (submitUserData lib t userData w)) (''user:pending:'' @ email v) =
          Some (3600, PendingDoc v) \<and>
        topic_log (snd (submitUserData lib t userData w)) = topic_log w)"
  unfolding submitUserData_valid [OF assms]
  by (auto simp: Let_def split: option.splits)

text \<open>
  C3, amended, at the submission of the scenario: all stores up, Redis down, no Redis
  client, broker down.
\<close>

theorem submit_stages_before_publish_witness:
  "validateUserData joi17 ann_body = Inr ann \<and>
   redis_store (snd (submitUserData joi17 7 ann_body world0)) ''user:pending:ann@x.com'' =
     Some (3600, PendingDoc ann) \<and>
   topic_log (snd (submitUserData joi17 7 ann_body world0)) ''user-registration'' =
     (\<lambda>p. [])(1 := [\<lparr>mkey = None, mvalue = Registration ann, mtimestamp = 7\<rparr>]) \<and>
   submitUserData joi17 7 ann_body world_redis_down =
     (Inl (Error ''connect ECONNREFUSED 127.0.0.1:6379''), world_redis_down) \<and>
   submitUserData joi17 7 ann_body (world0\<lparr>redisClient := False\<rparr>) =
     (Inl (Error ''Redis client not initialized. Call connectRedis() first.''),
      world0\<lparr>redisClient := False\<rparr>) \<and>
   redis_store (snd (submitUserData joi17 7 ann_body world_kafka_down)) ''user:pending:ann@x.com'' =
     Some (3600, PendingDoc ann) \<and>
   topic_log (snd (submitUserData joi17 7 ann_body world_kafka_down)) ''user-registration'' =
     (\<lambda>p. [])"
  using submit_stages_before_publish [OF ann_valid, of world0 7]
    submit_stages_before_publish [OF ann_valid, of world_redis_down 7 "''connect ECONNREFUSED 127.0.0.1:6379''"]
    submit_stages_before_publish [OF ann_valid, of "world0\<lparr>redisClient := False\<rparr>" 7]
    submit_stages_before_publish [OF ann_valid, of world_kafka_down 7]
  by (simp add: ann_valid world0_def world_redis_down_def world_kafka_down_def ann_def
      next_partition_def toPositive_def)

text \<open>
  C3 as stated fails on the key: after a successful submission nothing is stored under
  \<open>pending:ann@x.com\<close>; the entry is under \<open>user:pending:ann@x.com\<close>.
\<close>

theorem staging_key_has_user_prefix:
  "fst (submitUserData joi17 7 ann_body world0) =
     Inr \<lparr>success = True, message = ''User registration submitted successfully'',
          result_email = ''ann@x.com''\<rparr> \<and>
   redis_store (snd (submitUserData joi17 7 ann_body world0)) ''pending:ann@x.com'' = None \<and>
   redis_store (snd (submitUserData joi17 7 ann_body world0)) ''user:pending:ann@x.com'' =
     Some (3600, PendingDoc ann)"
  by (simp add: submitUserData_valid [OF ann_valid] world0_def ann_def)

text \<open>Whatever the body and the state, the route answers 201 or 400.\<close>

lemma post_users_status:
  "status (fst (post_users lib t req_body w)) = 201 \<or>
   status (fst (post_users lib t req_body w)) = 400"
  by (simp add: post_users_def split: option.splits prod.splits sum.splits)

lemma truthy_ann_body: "truthy ann_body"
  by (simp add: ann_body_def)

text \<open>
  C4. \<^verbatim>\<open>POST /api/users\<close> with the valid submission of the scenario answers 400 with the
  raw message of the error when Redis, or the broker, refuses connections: not a 5xx and
  not a generic message. The two \<^verbatim>\<open>GET\<close> routes of the same file answer 500 with a
  generic message when their store fails.
\<close>

theorem post_users_dependency_failure_is_400:
  "validateUserData joi17 ann_body = Inr ann \<and>
   post_users joi17 7 (Some ann_body) world_redis_down =
     (\<lparr>status = 400, body = Failed ''connect ECONNREFUSED 127.0.0.1:6379''\<rparr>, world_redis_down) \<and>
   fst (post_users joi17 7 (Some ann_body) world_kafka_down) =
     \<lparr>status = 400, body = Failed ''Connection error: connect ECONNREFUSED 127.0.0.1:9092''\<rparr> \<and>
   get_users None None world_redis_down = \<lparr>status = 200, body = Listing 0 []\<rparr> \<and>
   get_users None None (world0\<lparr>pg_fault := Some ''timeout''\<rparr>) =
     \<lparr>status = 500, body = Failed ''Failed to fetch users''\<rparr> \<and>
   fst (get_user ''ann@x.com'' world_redis_down) =
     \<lparr>status = 500, body = Failed ''Failed to fetch user''\<rparr>"
  by (simp add: ann_valid post_users_def truthy_ann_body submitUserData_valid [OF ann_valid]
      world_redis_down_def world_kafka_down_def world0_def get_users_def getAllUsers_def
      pool_connect_def parse_or_def bigint_max_def order_by_created_at_desc_def get_user_def
      getUserByEmail_def getRedisClient_def redis_get_def)

section \<open>The upsert and the reads\<close>

subsection \<open>Cache-aside read\<close>



subsection \<open>The upsert\<close>

lemma insert_on_conflict_fresh:
  assumes "varchar 100 (firstName u) = Some fn" "varchar 100 (lastName u) = Some ln"
    "varchar 255 (email u) = Some em" "varchar 50 (gender u) = Some g"
    "varchar 50 (sex u) = Some s" "varchar 255 (occupation u) = Some oc"
    and "users_id_seq w < int4_max"
    and "find (\<lambda>r. row_email r = em) (users w) = None"
  shows "insert_on_conflict t u w =
     Inr (\<lparr>row_id = Suc (users_id_seq w), first_name = fn, last_name = ln,
           row_email = em, row_gender = g, row_sex = s, row_occupation = oc,
           created_at = t, updated_at = t\<rparr>,
          w\<lparr>users := users w @ [\<lparr>row_id = Suc (users_id_seq w), first_name = fn, last_name = ln,
           row_email = em, row_gender = g, row_sex = s, row_occupation = oc,
           created_at = t, updated_at = t\<rparr>], users_id_seq := Suc (users_id_seq w)\<rparr>)"
  using assms by (simp add: insert_on_conflict_def Let_def)

lemma insert_on_conflict_existing:
  assumes "varchar 100 (firstName u) = Some fn" "varchar 100 (lastName u) = Some ln"
    "varchar 255 (email u) = Some em" "varchar 50 (gender u) = Some g"
    "varchar 50 (sex u) = Some s" "varchar 255 (occupation u) = Some oc"
    and "users_id_seq w < int4_max"
    and "find (\<lambda>r. row_email r = em) (users w) = Some old"
  shows "insert_on_conflict t u w =
     Inr (old\<lparr>first_name := fn, last_name := ln, row_gender := g, row_sex := s,
              row_occupation := oc, updated_at := t\<rparr>,
          w\<lparr>users := map (\<lambda>r. if row_email r = em
                then old\<lparr>first_name := fn, last_name := ln, row_gender := g, row_sex := s,
                        row_occupation := oc, updated_at := t\<rparr> else r) (users w),
            users_id_seq := Suc (users_id_seq w)\<rparr>)"
  using assms by (simp add: insert_on_conflict_def Let_def)

lemma insert_on_conflict_exhausted:
  assumes "varchar 100 (firstName u) = Some fn" "varchar 100 (lastName u) = Some ln"
    "varchar 255 (email u) = Some em" "varchar 50 (gender u) = Some g"
    "varchar 50 (sex u) = Some s" "varchar 255 (occupation u) = Some oc"
    and "int4_max \<le> users_id_seq w"
  shows "insert_on_conflict t u w = Inl sequence_exhausted"
  using assms by (simp add: insert_on_conflict_def)

lemma insert_on_conflict_Inr:
  assumes "insert_on_conflict t u w = Inr (row, wd)"
  obtains fn ln em g s oc where
    "varchar 100 (firstName u) = Some fn" "varchar 100 (lastName u) = Some ln"
    "varchar 255 (email u) = Some em" "varchar 50 (gender u) = Some g"
    "varchar 50 (sex u) = Some s" "varchar 255 (occupation u) = Some oc"
    "users_id_seq w < int4_max"
  using assms by (auto simp: insert_on_conflict_def split: option.splits if_splits)

text \<open>Whether the statement fails does not depend on the time.\<close>

lemma insert_on_conflict_Inl_time:
  assumes "insert_on_conflict t u w = Inl e"
  shows "insert_on_conflict t' u w = Inl e"
proof (cases "insert_on_conflict t' u w")
  case (Inl e')
  with assms show ?thesis
    by (auto simp: insert_on_conflict_def Let_def split: option.splits if_splits)
next
  case (Inr p)
  obtain row wd where "p = (row, wd)" by (cases p)
  with Inr have "insert_on_conflict t' u w = Inr (row, wd)" by simp
  then obtain fn ln em g s oc where v:
    "varchar 100 (firstName u) = Some fn" "varchar 100 (lastName u) = Some ln"
    "varchar 255 (email u) = Some em" "varchar 50 (gender u) = Some g"
    "varchar 50 (sex u) = Some s" "varchar 255 (occupation u) = Some oc"
    "users_id_seq w < int4_max"
    by (rule insert_on_conflict_Inr)
  show ?thesis
  proof (cases "find (\<lambda>r. row_email r = em) (users w)")
    case None
    from assms insert_on_conflict_fresh [OF v None, of t] show ?thesis by simp
  next
    case (Some old)
    from assms insert_on_conflict_existing [OF v Some, of t] show ?thesis by simp
  qed
qed

lemma find_None_email:
  "find (\<lambda>r. row_email r = em) rows = None \<longleftrightarrow> em \<notin> set (map row_email rows)"
  by (induction rows) auto

lemma find_Some_email:
  "find (\<lambda>r. row_email r = em) rows = Some old \<Longrightarrow> row_email old = em \<and> old \<in> set rows"
  by (induction rows) (auto split: if_splits)

lemma find_append_new:
  "find (\<lambda>r. row_email r = em) rows = None \<Longrightarrow> row_email row = em \<Longrightarrow>
   find (\<lambda>r. row_email r = em) (rows @ [row]) = Some row"
  by (induction rows) (auto split: if_splits)

lemma find_map_replace:
  "find (\<lambda>r. row_email r = em) rows = Some old \<Longrightarrow> row_email row = em \<Longrightarrow>
   find (\<lambda>r. row_email r = em) (map (\<lambda>r. if row_email r = em then row else r) rows) = Some row"
  by (induction rows) (auto split: if_splits)

lemma emails_map_replace_comp:
  "row_email row = em \<Longrightarrow>
   map (row_email \<circ> (\<lambda>r. if row_email r = em then row else r)) rows = map row_email rows"
  by (induction rows) auto

text \<open>What a successful upsert leaves in the table.\<close>

lemma insert_on_conflict_result:
  assumes "insert_on_conflict t u w = Inr (row, wd)"
  shows "\<exists>em. varchar 255 (email u) = Some em \<and> row_email row = em \<and>
           find (\<lambda>r. row_email r = em) (users wd) = Some row \<and>
           varchar 100 (firstName u) = Some (first_name row) \<and>
           varchar 100 (lastName u) = Some (last_name row) \<and>
           varchar 50 (gender u) = Some (row_gender row) \<and>
           varchar 50 (sex u) = Some (row_sex row) \<and>
           varchar 255 (occupation u) = Some (row_occupation row) \<and>
           updated_at row = t \<and> users_id_seq w < int4_max \<and>
           (\<exists>us. wd = w\<lparr>users := us, users_id_seq := Suc (users_id_seq w)\<rparr>) \<and>
           (distinct (map row_email (users w)) \<longrightarrow> distinct (map row_email (users wd)))"
proof -
  from assms obtain fn ln em g s oc where v:
    "varchar 100 (firstName u) = Some fn" "varchar 100 (lastName u) = Some ln"
    "varchar 255 (email u) = Some em" "varchar 50 (gender u) = Some g"
    "varchar 50 (sex u) = Some s" "varchar 255 (occupation u) = Some oc"
    "users_id_seq w < int4_max"
    by (rule insert_on_conflict_Inr)
  show ?thesis
  proof (cases "find (\<lambda>r. row_email r = em) (users w)")
    case None
    from assms show ?thesis
      unfolding insert_on_conflict_fresh [OF v None]
      using None by (auto simp: v find_append_new find_None_email)
  next
    case (Some old)
    from find_Some_email [OF Some] have old: "row_email old = em" by simp
    from assms show ?thesis
      unfolding insert_on_conflict_existing [OF v Some]
      using Some old by (auto simp: v find_map_replace emails_map_replace_comp)
  qed
qed




lemma save_no_pool:
  "pool_connect w = Inl e \<Longrightarrow> saveUserToDatabase t u w = (Inl e, w)"
  by (simp add: saveUserToDatabase_def)

lemma save_insert_fails:
  "pool_connect w = Inr c \<Longrightarrow> insert_on_conflict t u w = Inl e \<Longrightarrow>
   saveUserToDatabase t u w = (Inl e, w)"
  by (simp add: saveUserToDatabase_def)

lemma save_no_redis_client:
  "pool_connect w = Inr c \<Longrightarrow> insert_on_conflict t u w = Inr (row, wd) \<Longrightarrow>
   \<not> redisClient wd \<Longrightarrow>
   saveUserToDatabase t u w =
     (Inl (Error ''Redis client not initialized. Call connectRedis() first.''), wd)"
  by (simp add: saveUserToDatabase_def getRedisClient_def)

lemma save_redis_fault:
  "pool_connect w = Inr c \<Longrightarrow> insert_on_conflict t u w = Inr (row, wd) \<Longrightarrow>
   redisClient wd \<Longrightarrow> redis_fault wd = Some m \<Longrightarrow>
   saveUserToDatabase t u w = (Inl (Error m), wd)"
  by (simp add: saveUserToDatabase_def getRedisClient_def setEx_def)

lemma save_all_steps:
  "pool_connect w = Inr c \<Longrightarrow> insert_on_conflict t u w = Inr (row, wd) \<Longrightarrow>
   redisClient wd \<Longrightarrow> redis_fault wd = None \<Longrightarrow>
   saveUserToDatabase t u w =
     (Inr row,
      wd\<lparr>redis_store := ((redis_store wd)
              (''user:completed:'' @ email u \<mapsto> (86400, SavedDoc t row)))
              (''user:pending:'' @ email u := None)\<rparr>)"
  by (simp add: saveUserToDatabase_def getRedisClient_def setEx_def redis_del_def)

lemma pool_connect_Inr: "pool_connect w = Inr c \<longleftrightarrow> pool w \<and> pg_fault w = None"
  by (simp add: pool_connect_def split: option.splits)

lemma save_written:
  assumes "pool_connect w = Inr c" and "insert_on_conflict t u w = Inr (row, wd)"
  obtains rs where "snd (saveUserToDatabase t u w) = wd\<lparr>redis_store := rs\<rparr>"
proof (cases "redisClient wd")
  case False
  from save_no_redis_client [OF assms False]
  have "snd (saveUserToDatabase t u w) = wd\<lparr>redis_store := redis_store wd\<rparr>" by simp
  then show ?thesis by (rule that)
next
  case True
  show ?thesis
  proof (cases "redis_fault wd")
    case None
    from save_all_steps [OF assms True None]
    have "snd (saveUserToDatabase t u w) =
      wd\<lparr>redis_store := ((redis_store wd)
              (''user:completed:'' @ email u \<mapsto> (86400, SavedDoc t row)))
              (''user:pending:'' @ email u := None)\<rparr>" by simp
    then show ?thesis by (rule that)
  next
    case (Some m)
    from save_redis_fault [OF assms True Some]
    have "snd (saveUserToDatabase t u w) = wd\<lparr>redis_store := redis_store wd\<rparr>" by simp
    then show ?thesis by (rule that)
  qed
qed

lemma saveUserToDatabase_cases:
  obtains (early) e where "saveUserToDatabase t u w = (Inl e, w)"
  | (written) res row wd rs where "insert_on_conflict t u w = Inr (row, wd)"
      "saveUserToDatabase t u w = (res, wd\<lparr>redis_store := rs\<rparr>)"
proof (cases "pool_connect w")
  case (Inl e)
  then show ?thesis by (intro early save_no_pool)
next
  case (Inr c)
  show ?thesis
  proof (cases "insert_on_conflict t u w")
    case (Inl e)
    with Inr show ?thesis by (intro early save_insert_fails)
  next
    case ins: (Inr p)
    obtain row wd where p: "p = (row, wd)" by (cases p)
    note ins' = ins [unfolded p]
    have same: "wd = wd\<lparr>redis_store := redis_store wd\<rparr>" by simp
    show ?thesis
    proof (cases "redisClient wd")
      case False
      from save_no_redis_client [OF Inr ins' False]
      have "saveUserToDatabase t u w =
        (Inl (Error ''Redis client not initialized. Call connectRedis() first.''),
         wd\<lparr>redis_store := redis_store wd\<rparr>)" by simp
      with ins' show ?thesis by (rule written)
    next
      case True
      show ?thesis
      proof (cases "redis_fault wd")
        case None
        from ins' save_all_steps [OF Inr ins' True None] show ?thesis by (rule written)
      next
        case (Some m)
        from save_redis_fault [OF Inr ins' True Some]
        have "saveUserToDatabase t u w = (Inl (Error m), wd\<lparr>redis_store := redis_store wd\<rparr>)"
          by simp
        with ins' show ?thesis by (rule written)
      qed
    qed
  qed
qed

lemma saveUserToDatabase_keeps:
  "topic_log (snd (saveUserToDatabase t u w)) = topic_log w \<and>
   group_offset (snd (saveUserToDatabase t u w)) = group_offset w"
proof (cases t u w rule: saveUserToDatabase_cases)
  case (early e)
  then show ?thesis by simp
next
  case (written res row wd rs)
  from insert_on_conflict_result [OF written(1)] obtain us where
    "wd = w\<lparr>users := us, users_id_seq := Suc (users_id_seq w)\<rparr>" by blast
  with written(2) show ?thesis by simp
qed

lemma saveUserToDatabase_distinct:
  assumes "distinct (map row_email (users w))"
  shows "distinct (map row_email (users (snd (saveUserToDatabase t u w))))"
proof (cases t u w rule: saveUserToDatabase_cases)
  case (early e)
  with assms show ?thesis by simp
next
  case (written res row wd rs)
  from insert_on_conflict_result [OF written(1)] assms
  have "distinct (map row_email (users wd))" by blast
  with written(2) show ?thesis by simp
qed

lemma distinct_email_eq:
  assumes "distinct (map row_email rows)" and "a \<in> set rows" and "b \<in> set rows"
    and "row_email a = row_email b"
  shows "a = b"
proof -
  from assms(1) have "inj_on row_email (set rows)" by (simp add: distinct_map)
  then show ?thesis using assms(4,2,3) by (rule inj_onD)
qed

text \<open>
  C2. In a table with at most one row per email, \<open>saveUserToDatabase\<close> leaves at most one
  row per email, whatever its outcome, and so does a second run. When a first run with a
  record has written the row \<open>r1\<close> (whether or not its Redis steps then succeeded), a
  second run with the same record at time \<open>t2\<close> leaves the table as the first run left it
  with only the \<open>updated_at\<close> of that row set to \<open>t2\<close>: no row is added and no other column
  moves; with Redis answering it returns \<open>r1\<close> with \<open>updated_at = t2\<close>. The one exception
  is a sequence that the first run has brought to its last value: the second run is
  refused then and the table stays exactly as the first run left it. When the first run
  has written nothing, neither does the second.
\<close>

theorem upsert_idempotent_unique:
  assumes "distinct (map row_email (users w))"
    and "w1 = snd (saveUserToDatabase t1 u w)"
    and "w2 = snd (saveUserToDatabase t2 u w1)"
  shows
    "distinct (map row_email (users w1)) \<and> distinct (map row_email (users w2)) \<and>
     (pool_connect w = Inr () \<and> insert_on_conflict t1 u w = Inr (r1, wd) \<longrightarrow>
        r1 \<in> set (users w1) \<and>
        (users_id_seq w1 < int4_max \<longrightarrow>
           users w2 =
             map (\<lambda>r. if row_email r = row_email r1 then r\<lparr>updated_at := t2\<rparr> else r) (users w1) \<and>
           (redisClient w \<and> redis_fault w = None \<longrightarrow>
              fst (saveUserToDatabase t2 u w1) = Inr (r1\<lparr>updated_at := t2\<rparr>))) \<and>
        (int4_max \<le> users_id_seq w1 \<longrightarrow>
           saveUserToDatabase t2 u w1 = (Inl sequence_exhausted, w1))) \<and>
     ((\<exists>e. pool_connect w = Inl e) \<or> (\<exists>e. insert_on_conflict t1 u w = Inl e) \<longrightarrow>
        w1 = w \<and> w2 = w)"
proof -
  have d1: "distinct (map row_email (users w1))"
    unfolding assms(2) using assms(1) by (rule saveUserToDatabase_distinct)
  have d2: "distinct (map row_email (users w2))"
    unfolding assms(3) using d1 by (rule saveUserToDatabase_distinct)
  have wrote: "r1 \<in> set (users w1) \<and>
        (users_id_seq w1 < int4_max \<longrightarrow>
           users w2 =
             map (\<lambda>r. if row_email r = row_email r1 then r\<lparr>updated_at := t2\<rparr> else r) (users w1) \<and>
           (redisClient w \<and> redis_fault w = None \<longrightarrow>
              fst (saveUserToDatabase t2 u w1) = Inr (r1\<lparr>updated_at := t2\<rparr>))) \<and>
        (int4_max \<le> users_id_seq w1 \<longrightarrow>
           saveUserToDatabase t2 u w1 = (Inl sequence_exhausted, w1))"
    if pc: "pool_connect w = Inr ()" and ins: "insert_on_conflict t1 u w = Inr (r1, wd)"
  proof -
    obtain rs where "snd (saveUserToDatabase t1 u w) = wd\<lparr>redis_store := rs\<rparr>"
      by (rule save_written [OF pc ins])
    then have w1: "w1 = wd\<lparr>redis_store := rs\<rparr>" by (simp only: assms(2))
    from insert_on_conflict_result [OF ins] obtain em us where
      em: "varchar 255 (email u) = Some em" "row_email r1 = em"
        "find (\<lambda>r. row_email r = em) (users wd) = Some r1"
      and v: "varchar 100 (firstName u) = Some (first_name r1)"
        "varchar 100 (lastName u) = Some (last_name r1)"
        "varchar 50 (gender u) = Some (row_gender r1)"
        "varchar 50 (sex u) = Some (row_sex r1)"
        "varchar 255 (occupation u) = Some (row_occupation r1)"
      and wd: "wd = w\<lparr>users := us, users_id_seq := Suc (users_id_seq w)\<rparr>"
      by blast
    from pc have up: "pool w" "pg_fault w = None" by (simp_all add: pool_connect_Inr)
    then have pc1: "pool_connect w1 = Inr ()" by (simp add: pool_connect_Inr w1 wd)
    have found: "find (\<lambda>r. row_email r = em) (users w1) = Some r1"
      using em(3) by (simp add: w1)
    have r1_in: "r1 \<in> set (users w1)"
      using find_Some_email [OF found] by simp
    have same_row: "(if row_email r = em then r1\<lparr>updated_at := t2\<rparr> else r) =
          (if row_email r = row_email r1 then r\<lparr>updated_at := t2\<rparr> else r)"
      if "r \<in> set (users w1)" for r
      using distinct_email_eq [OF d1 that r1_in] em(2) by auto
    have running: "users w2 =
             map (\<lambda>r. if row_email r = row_email r1 then r\<lparr>updated_at := t2\<rparr> else r) (users w1) \<and>
           (redisClient w \<and> redis_fault w = None \<longrightarrow>
              fst (saveUserToDatabase t2 u w1) = Inr (r1\<lparr>updated_at := t2\<rparr>))"
      if room: "users_id_seq w1 < int4_max"
    proof -
      let ?wd2 = "w1\<lparr>users := map (\<lambda>r. if row_email r = em then r1\<lparr>updated_at := t2\<rparr> else r) (users w1),
             users_id_seq := Suc (users_id_seq w1)\<rparr>"
      have ins2: "insert_on_conflict t2 u w1 = Inr (r1\<lparr>updated_at := t2\<rparr>, ?wd2)"
        using insert_on_conflict_existing [OF v(1,2) em(1) v(3,4,5) room found, of t2] by simp
      obtain rs2 where "snd (saveUserToDatabase t2 u w1) = ?wd2\<lparr>redis_store := rs2\<rparr>"
        by (rule save_written [OF pc1 ins2])
      then have "w2 = ?wd2\<lparr>redis_store := rs2\<rparr>" by (simp only: assms(3))
      then have "users w2 =
          map (\<lambda>r. if row_email r = em then r1\<lparr>updated_at := t2\<rparr> else r) (users w1)"
        by simp
      with same_row have table: "users w2 =
          map (\<lambda>r. if row_email r = row_email r1 then r\<lparr>updated_at := t2\<rparr> else r) (users w1)"
        by simp
      have "fst (saveUserToDatabase t2 u w1) = Inr (r1\<lparr>updated_at := t2\<rparr>)"
        if "redisClient w \<and> redis_fault w = None"
      proof -
        from that have "redisClient ?wd2" "redis_fault ?wd2 = None" by (simp_all add: w1 wd)
        from save_all_steps [OF pc1 ins2 this] show ?thesis by simp
      qed
      then have "redisClient w \<and> redis_fault w = None \<longrightarrow>
              fst (saveUserToDatabase t2 u w1) = Inr (r1\<lparr>updated_at := t2\<rparr>)"
        by simp
      with table show ?thesis by simp
    qed
    have refused: "saveUserToDatabase t2 u w1 = (Inl sequence_exhausted, w1)"
      if full: "int4_max \<le> users_id_seq w1"
    proof -
      have "insert_on_conflict t2 u w1 = Inl sequence_exhausted"
        by (rule insert_on_conflict_exhausted [OF v(1,2) em(1) v(3,4,5) full])
      with pc1 show ?thesis by (rule save_insert_fails)
    qed
    have run': "users_id_seq w1 < int4_max \<longrightarrow>
           users w2 =
             map (\<lambda>r. if row_email r = row_email r1 then r\<lparr>updated_at := t2\<rparr> else r) (users w1) \<and>
           (redisClient w \<and> redis_fault w = None \<longrightarrow>
              fst (saveUserToDatabase t2 u w1) = Inr (r1\<lparr>updated_at := t2\<rparr>))"
    proof (rule impI)
      assume a: "users_id_seq w1 < int4_max"
      show "users w2 =
             map (\<lambda>r. if row_email r = row_email r1 then r\<lparr>updated_at := t2\<rparr> else r) (users w1) \<and>
           (redisClient w \<and> redis_fault w = None \<longrightarrow>
              fst (saveUserToDatabase t2 u w1) = Inr (r1\<lparr>updated_at := t2\<rparr>))"
        using running [OF a] .
    qed
    have ref': "int4_max \<le> users_id_seq w1 \<longrightarrow>
           saveUserToDatabase t2 u w1 = (Inl sequence_exhausted, w1)"
    proof (rule impI)
      assume a: "int4_max \<le> users_id_seq w1"
      show "saveUserToDatabase t2 u w1 = (Inl sequence_exhausted, w1)"
        using refused [OF a] .
    qed
    show ?thesis using r1_in run' ref' by (intro conjI) assumption+
  qed
  have w': "pool_connect w = Inr () \<and> insert_on_conflict t1 u w = Inr (r1, wd) \<longrightarrow>
        r1 \<in> set (users w1) \<and>
        (users_id_seq w1 < int4_max \<longrightarrow>
           users w2 =
             map (\<lambda>r. if row_email r = row_email r1 then r\<lparr>updated_at := t2\<rparr> else r) (users w1) \<and>
           (redisClient w \<and> redis_fault w = None \<longrightarrow>
              fst (saveUserToDatabase t2 u w1) = Inr (r1\<lparr>updated_at := t2\<rparr>))) \<and>
        (int4_max \<le> users_id_seq w1 \<longrightarrow>
           saveUserToDatabase t2 u w1 = (Inl sequence_exhausted, w1))"
  proof (rule impI)
    assume "pool_connect w = Inr () \<and> insert_on_conflict t1 u w = Inr (r1, wd)"
    then have a: "pool_connect w = Inr ()" and b: "insert_on_conflict t1 u w = Inr (r1, wd)"
      by simp_all
    show "r1 \<in> set (users w1) \<and>
        (users_id_seq w1 < int4_max \<longrightarrow>
           users w2 =
             map (\<lambda>r. if row_email r = row_email r1 then r\<lparr>updated_at := t2\<rparr> else r) (users w1) \<and>
           (redisClient w \<and> redis_fault w = None \<longrightarrow>
              fst (saveUserToDatabase t2 u w1) = Inr (r1\<lparr>updated_at := t2\<rparr>))) \<and>
        (int4_max \<le> users_id_seq w1 \<longrightarrow>
           saveUserToDatabase t2 u w1 = (Inl sequence_exhausted, w1))"
      using wrote [OF a b] .
  qed
  have n': "(\<exists>e. pool_connect w = Inl e) \<or> (\<exists>e. insert_on_conflict t1 u w = Inl e) \<longrightarrow>
        w1 = w \<and> w2 = w"
  proof (rule impI)
    assume a: "(\<exists>e. pool_connect w = Inl e) \<or> (\<exists>e. insert_on_conflict t1 u w = Inl e)"
    show "w1 = w \<and> w2 = w"
    proof (cases "pool_connect w")
      case (Inl e)
      then show ?thesis by (simp add: assms(2,3) save_no_pool)
    next
      case (Inr c)
      with a obtain e where e: "insert_on_conflict t1 u w = Inl e" by auto
      from save_insert_fails [OF Inr e] have "w1 = w" by (simp add: assms(2))
      moreover from save_insert_fails [OF Inr insert_on_conflict_Inl_time [OF e, of t2]]
      have "snd (saveUserToDatabase t2 u w) = w" by simp
      ultimately show ?thesis by (simp add: assms(3))
    qed
  qed
  show ?thesis using d1 d2 w' n' by (intro conjI) assumption+
qed

lemma save_ann_world0: "saveUserToDatabase 9 ann world0 = (Inr ann_row, world_ann_saved)"
  by (simp add: saveUserToDatabase_def pool_connect_def insert_on_conflict_def varchar_def
      getRedisClient_def setEx_def redis_del_def world0_def ann_def ann_row_def world_ann_saved_def
      int4_max_def Let_def)

lemma insert_ann_world0:
  "insert_on_conflict 9 ann world0 = Inr (ann_row, world0\<lparr>users := [ann_row], users_id_seq := 1\<rparr>)"
  by (simp add: insert_on_conflict_def varchar_def world0_def ann_def ann_row_def int4_max_def
      Let_def)

lemma save_ann_again:
  "saveUserToDatabase 11 ann world_ann_saved =
     (Inr (ann_row\<lparr>updated_at := 11\<rparr>),
      world_ann_saved\<lparr>users := [ann_row\<lparr>updated_at := 11\<rparr>], users_id_seq := 2,
        redis_store := [''user:completed:ann@x.com'' \<mapsto>
                          (86400, SavedDoc 11 (ann_row\<lparr>updated_at := 11\<rparr>))]\<rparr>)"
  by (simp add: saveUserToDatabase_def pool_connect_def insert_on_conflict_def varchar_def
      getRedisClient_def setEx_def redis_del_def world0_def ann_def ann_row_def world_ann_saved_def
      int4_max_def Let_def)

lemma insert_ann_last_id:
  "insert_on_conflict 9 ann world_last_id =
     Inr (ann_row\<lparr>row_id := 2147483647\<rparr>,
          world_last_id\<lparr>users := [ann_row\<lparr>row_id := 2147483647\<rparr>], users_id_seq := 2147483647\<rparr>)"
  by (simp add: insert_on_conflict_def varchar_def world_last_id_def world0_def ann_def
      ann_row_def int4_max_def Let_def)

lemma save_ann_last_id:
  "saveUserToDatabase 9 ann world_last_id =
     (Inr (ann_row\<lparr>row_id := 2147483647\<rparr>),
      world_last_id\<lparr>users := [ann_row\<lparr>row_id := 2147483647\<rparr>], users_id_seq := 2147483647,
        redis_store := [''user:completed:ann@x.com'' \<mapsto>
                          (86400, SavedDoc 9 (ann_row\<lparr>row_id := 2147483647\<rparr>))]\<rparr>)"
  by (simp add: saveUserToDatabase_def pool_connect_def insert_on_conflict_def varchar_def
      getRedisClient_def setEx_def redis_del_def world_last_id_def world0_def ann_def ann_row_def
      int4_max_def Let_def)

text \<open>
  C2 at the empty table: the submission of the scenario persisted at time 9, then again
  at time 11; and the same two runs when the sequence has one value left, where the
  second run is refused and the table stays as it was.
\<close>

theorem upsert_idempotent_unique_witness:
  "distinct (map row_email (users world0)) \<and>
   pool_connect world0 = Inr () \<and>
   insert_on_conflict 9 ann world0 =
     Inr (ann_row, world0\<lparr>users := [ann_row], users_id_seq := 1\<rparr>) \<and>
   snd (saveUserToDatabase 9 ann world0) = world_ann_saved \<and>
   users_id_seq world_ann_saved < int4_max \<and>
   fst (saveUserToDatabase 11 ann world_ann_saved) = Inr (ann_row\<lparr>updated_at := 11\<rparr>) \<and>
   users (snd (saveUserToDatabase 11 ann world_ann_saved)) = [ann_row\<lparr>updated_at := 11\<rparr>] \<and>
   int4_max \<le> users_id_seq (snd (saveUserToDatabase 9 ann world_last_id)) \<and>
   users (snd (saveUserToDatabase 9 ann world_last_id)) = [ann_row\<lparr>row_id := 2147483647\<rparr>] \<and>
   saveUserToDatabase 11 ann (snd (saveUserToDatabase 9 ann world_last_id)) =
     (Inl sequence_exhausted, snd (saveUserToDatabase 9 ann world_last_id))"
proof -
  have d: "distinct (map row_email (users world0))" by (simp add: world0_def)
  have pc: "pool_connect world0 = Inr ()" by (simp add: pool_connect_def world0_def)
  have w1: "world_ann_saved = snd (saveUserToDatabase 9 ann world0)"
    by (simp add: save_ann_world0)
  have room: "users_id_seq world_ann_saved < int4_max" "redisClient world0" "redis_fault world0 = None"
    by (simp_all add: world_ann_saved_def world0_def int4_max_def)
  note normal = upsert_idempotent_unique [where w = world0 and ?w1.0 = world_ann_saved
      and ?t1.0 = 9 and u = ann and ?t2.0 = 11 and ?r1.0 = ann_row
      and wd = "world0\<lparr>users := [ann_row], users_id_seq := 1\<rparr>", OF d w1 refl]
  from normal pc insert_ann_world0 room
  have a: "fst (saveUserToDatabase 11 ann world_ann_saved) = Inr (ann_row\<lparr>updated_at := 11\<rparr>)"
    "users (snd (saveUserToDatabase 11 ann world_ann_saved)) =
       map (\<lambda>r. if row_email r = row_email ann_row then r\<lparr>updated_at := 11\<rparr> else r)
         (users world_ann_saved)"
    by blast+
  have d': "distinct (map row_email (users world_last_id))"
    by (simp add: world_last_id_def world0_def)
  have pc': "pool_connect world_last_id = Inr ()"
    by (simp add: pool_connect_def world_last_id_def world0_def)
  have full: "int4_max \<le> users_id_seq (snd (saveUserToDatabase 9 ann world_last_id))"
    by (simp add: save_ann_last_id int4_max_def)
  note last = upsert_idempotent_unique [where w = world_last_id and ?t1.0 = 9 and u = ann
      and ?t2.0 = 11 and ?r1.0 = "ann_row\<lparr>row_id := 2147483647\<rparr>"
      and wd = "world_last_id\<lparr>users := [ann_row\<lparr>row_id := 2147483647\<rparr>],
                  users_id_seq := 2147483647\<rparr>", OF d' refl refl]
  from last pc' insert_ann_last_id full
  have b: "saveUserToDatabase 11 ann (snd (saveUserToDatabase 9 ann world_last_id)) =
     (Inl sequence_exhausted, snd (saveUserToDatabase 9 ann world_last_id))"
    by blast
  have c: "users (snd (saveUserToDatabase 9 ann world_last_id)) = [ann_row\<lparr>row_id := 2147483647\<rparr>]"
    by (simp add: save_ann_last_id)
  from a have a2: "users (snd (saveUserToDatabase 11 ann world_ann_saved)) = [ann_row\<lparr>updated_at := 11\<rparr>]"
    by (simp add: world_ann_saved_def)
  from d pc insert_ann_world0 w1 room(1) a(1) a2 full c b show ?thesis by simp
qed

subsection \<open>Reads\<close>





subsection \<open>The list read\<close>











section \<open>The relay\<close>

subsection \<open>The partition of a message without a key\<close>

lemma sendMessage_ok:
  assumes "producer w" "kafka_fault w = None"
  shows "sendMessage t topic m w =
     Inr (w\<lparr>counters := (counters w)(topic := Suc (counters w topic)),
            topic_log := (topic_log w)
              (topic := (topic_log w topic)
                 (next_partition w topic :=
                    topic_log w topic (next_partition w topic) @
                      [\<lparr>mkey = None, mvalue = Registration m, mtimestamp = t\<rparr>]))\<rparr>)"
  using assms by (simp add: sendMessage_def)

lemma next_partition_less:
  "1 \<le> partitions w topic \<Longrightarrow> next_partition w topic < partitions w topic"
  by (simp add: next_partition_def)

lemma next_partition_single:
  "partitions w topic = 1 \<Longrightarrow> next_partition w topic = 0"
  by (simp add: next_partition_def)

lemma mod_Suc_neq: "2 \<le> n \<Longrightarrow> Suc x mod n \<noteq> x mod n"
  by (auto simp: mod_Suc)

lemma toPositive_turn:
  assumes "2 \<le> n" "\<not> n dvd 2147483647"
  shows "toPositive (Suc (Suc c)) mod n \<noteq> toPositive (Suc c) mod n"
proof (cases "Suc (Suc c mod 2147483648) = 2147483648")
  case True
  then have x: "Suc c mod 2147483648 = 2147483647" by simp
  from True have y: "Suc (Suc c) mod 2147483648 = 0" by (simp add: mod_Suc)
  from assms(2) have "2147483647 mod n \<noteq> 0" by (simp add: dvd_eq_mod_eq_0)
  then show ?thesis by (simp add: toPositive_def x y)
next
  case False
  then have "Suc (Suc c) mod 2147483648 = Suc (Suc c mod 2147483648)" by (simp add: mod_Suc)
  then show ?thesis using mod_Suc_neq [OF assms(1)] by (simp add: toPositive_def)
qed

lemma next_partition_turn:
  assumes "2 \<le> partitions w topic" "\<not> partitions w topic dvd 2147483647"
    and "partitions w1 = partitions w" "counters w1 topic = Suc (counters w topic)"
  shows "next_partition w1 topic \<noteq> next_partition w topic"
  using toPositive_turn [OF assms(1,2)] by (simp add: next_partition_def assms(3,4))

subsection \<open>The rounds of the consumer\<close>

lemma eachMessage_resolves: "fst (eachMessage t msg w) = Inr ()"
  by (simp add: eachMessage_def split: prod.splits sum.splits)

lemma snd_eachMessage:
  "snd (eachMessage t msg w) =
     (case mvalue msg of Malformed \<Rightarrow> w | Registration u \<Rightarrow> snd (saveUserToDatabase t u w))"
  by (simp add: eachMessage_def process_message_def split: prod.splits sum.splits payload.splits)

lemma eachMessage_keeps:
  "topic_log (snd (eachMessage t msg w)) = topic_log w \<and>
   group_offset (snd (eachMessage t msg w)) = group_offset w"
  by (cases "mvalue msg") (simp_all add: snd_eachMessage saveUserToDatabase_keeps)

lemma consumer_poll_pending:
  assumes "group_offset w p < length (topic_log w ''user-registration'' p)"
  shows "consumer_poll t p w =
     (snd (eachMessage t (topic_log w ''user-registration'' p ! group_offset w p) w))
       \<lparr>group_offset := (group_offset w)(p := Suc (group_offset w p))\<rparr>"
proof -
  let ?msg = "topic_log w ''user-registration'' p ! group_offset w p"
  obtain r w1 where e: "eachMessage t ?msg w = (r, w1)"
    by (cases "eachMessage t ?msg w")
  with eachMessage_resolves [of t ?msg w] have r: "r = Inr ()" by simp
  from e eachMessage_keeps [of t ?msg w] have "group_offset w1 = group_offset w" by simp
  with e r assms show ?thesis by (simp add: consumer_poll_def)
qed

lemma consumer_poll_idle:
  "\<not> group_offset w p < length (topic_log w ''user-registration'' p) \<Longrightarrow> consumer_poll t p w = w"
  by (simp add: consumer_poll_def)

lemma consumer_poll_step:
  "topic_log (consumer_poll t p w) = topic_log w \<and>
   group_offset (consumer_poll t p w) =
     (if group_offset w p < length (topic_log w ''user-registration'' p)
      then (group_offset w)(p := Suc (group_offset w p))
      else group_offset w)"
proof (cases "group_offset w p < length (topic_log w ''user-registration'' p)")
  case True
  with eachMessage_keeps [of t "topic_log w ''user-registration'' p ! group_offset w p" w]
  show ?thesis by (simp add: consumer_poll_pending)
next
  case False
  then show ?thesis by (simp add: consumer_poll_idle)
qed

lemma consumer_run_log: "topic_log (consumer_run rounds w) = topic_log w"
proof (induction rounds arbitrary: w)
  case Nil
  then show ?case by simp
next
  case (Cons r rounds)
  obtain t p where r: "r = (t, p)" by (cases r)
  from Cons.IH [of "consumer_poll t p w"] consumer_poll_step [of t p w]
  show ?case by (simp add: r)
qed

lemma consumer_run_offset:
  "group_offset w q \<le> length (topic_log w ''user-registration'' q) \<Longrightarrow>
   group_offset (consumer_run rounds w) q =
     min (length (topic_log w ''user-registration'' q))
       (group_offset w q + length (filter (\<lambda>r. snd r = q) rounds))"
proof (induction rounds arbitrary: w)
  case Nil
  then show ?case by simp
next
  case (Cons r rounds)
  obtain t p where r: "r = (t, p)" by (cases r)
  let ?w = "consumer_poll t p w"
  from consumer_poll_step [of t p w] Cons.prems
  have step: "topic_log ?w = topic_log w"
    "group_offset ?w q \<le> length (topic_log ?w ''user-registration'' q)"
    by (simp_all split: if_splits)
  from Cons.IH [OF step(2)] consumer_poll_step [of t p w] Cons.prems
  show ?case by (auto simp: step(1) r split: if_splits)
qed

lemma consumer_run_mono: "group_offset w q \<le> group_offset (consumer_run rounds w) q"
proof (induction rounds arbitrary: w)
  case Nil
  then show ?case by simp
next
  case (Cons r rounds)
  obtain t p where r: "r = (t, p)" by (cases r)
  have "group_offset w q \<le> group_offset (consumer_poll t p w) q"
    using consumer_poll_step [of t p w] by simp
  also have "\<dots> \<le> group_offset (consumer_run rounds (consumer_poll t p w)) q"
    by (rule Cons.IH)
  finally show ?case by (simp add: r)
qed

text \<open>The calls of the handler for one partition take its offsets one after the other.\<close>

lemma consumer_trace_partition:
  "map snd (filter (\<lambda>c. fst c = q) (consumer_trace rounds w)) =
     [group_offset w q ..< group_offset (consumer_run rounds w) q]"
proof (induction rounds arbitrary: w)
  case Nil
  then show ?case by simp
next
  case (Cons r rounds)
  obtain t p where r: "r = (t, p)" by (cases r)
  let ?w = "consumer_poll t p w"
  note IH = Cons.IH [of ?w]
  show ?case
  proof (cases "p = q \<and> group_offset w p < length (topic_log w ''user-registration'' p)")
    case True
    then have pq: "p = q" and pend: "group_offset w q < length (topic_log w ''user-registration'' q)"
      by auto
    have off: "group_offset ?w q = Suc (group_offset w q)"
      using consumer_poll_step [of t q w] pend unfolding pq by simp
    have "Suc (group_offset w q) \<le> group_offset (consumer_run rounds ?w) q"
      using consumer_run_mono [of ?w q rounds] off by simp
    then have "[group_offset w q ..< group_offset (consumer_run rounds ?w) q] =
        group_offset w q # [Suc (group_offset w q) ..< group_offset (consumer_run rounds ?w) q]"
      by (simp add: upt_conv_Cons)
    with pq pend IH off show ?thesis by (simp add: r)
  next
    case False
    then have "group_offset ?w q = group_offset w q"
      using consumer_poll_step [of t p w] by auto
    with False IH show ?thesis by (auto simp: r)
  qed
qed

lemma consumer_trace_two:
  assumes "p \<noteq> q"
    and "group_offset w p < length (topic_log w ''user-registration'' p)"
    and "group_offset w q < length (topic_log w ''user-registration'' q)"
  shows "consumer_trace [(t1, q), (t2, p)] w = [(q, group_offset w q), (p, group_offset w p)]"
  using assms consumer_poll_step [of t1 q w] by simp

text \<open>
  C1, amended. The handler \<open>eachMessage\<close> catches every error, so it returns normally for
  every message. Hence a round of the consumer on a partition with a message pending
  always moves the committed offset of that partition past that message, also when the
  upsert failed or the payload could not be parsed: the state is the one the failed
  upsert left, with the offset advanced, and the message is not delivered again. The
  offsets of the other partitions and the logs stay. The loop goes on: after the rounds
  of \<open>rounds\<close> the offset of the partition has advanced by the number of its rounds, up
  to the end of its log.
\<close>

theorem consumer_commits_every_message:
  assumes "group_offset w p < length (topic_log w ''user-registration'' p)"
    and "msg = topic_log w ''user-registration'' p ! group_offset w p"
  shows
    "fst (eachMessage t msg w) = Inr () \<and>
     group_offset (consumer_poll t p w) = (group_offset w)(p := Suc (group_offset w p)) \<and>
     topic_log (consumer_poll t p w) = topic_log w \<and>
     (mvalue msg = Registration u \<longrightarrow>
        consumer_poll t p w =
          (snd (saveUserToDatabase t u w))
            \<lparr>group_offset := (group_offset w)(p := Suc (group_offset w p))\<rparr>) \<and>
     (mvalue msg = Malformed \<longrightarrow>
        consumer_poll t p w = w\<lparr>group_offset := (group_offset w)(p := Suc (group_offset w p))\<rparr>) \<and>
     group_offset (consumer_run rounds w) p =
       min (length (topic_log w ''user-registration'' p))
         (group_offset w p + length (filter (\<lambda>r. snd r = p) rounds))"
proof -
  from assms(1) have "group_offset w p \<le> length (topic_log w ''user-registration'' p)" by simp
  from consumer_run_offset [OF this, of rounds] consumer_poll_step [of t p w] assms(1)
  show ?thesis
    by (simp add: eachMessage_resolves consumer_poll_pending [OF assms(1)] assms(2) [symmetric]
        snd_eachMessage)
qed

lemma save_ann_pg_down:
  "saveUserToDatabase 9 ann world_pg_down =
     (Inl (Error ''connect ECONNREFUSED 127.0.0.1:5432''), world_pg_down)"
  by (simp add: saveUserToDatabase_def pool_connect_def world_pg_down_def world0_def)

lemma pg_down_pending:
  "group_offset world_pg_down = (\<lambda>p. 0)"
  "topic_log world_pg_down ''user-registration'' (Suc 0) =
     [\<lparr>mkey = None, mvalue = Registration ann, mtimestamp = 7\<rparr>]"
  "users world_pg_down = []"
  by (simp_all add: world_pg_down_def world0_def)

lemma poll_pg_down:
  "consumer_poll 9 1 world_pg_down = world_pg_down\<lparr>group_offset := (\<lambda>p. 0)(1 := 1)\<rparr>"
proof -
  have "group_offset world_pg_down 1 < length (topic_log world_pg_down ''user-registration'' 1)"
    by (simp add: pg_down_pending)
  from consumer_poll_pending [OF this, of 9] show ?thesis
    by (simp add: pg_down_pending snd_eachMessage save_ann_pg_down)
qed

text \<open>
  C1 as stated fails: with PostgreSQL refusing connections the upsert of the pending
  message fails, nothing is persisted, and the round still commits offset 1.
\<close>

theorem failed_upsert_is_committed:
  "group_offset world_pg_down 1 = 0 \<and>
   topic_log world_pg_down ''user-registration'' 1 ! 0 =
     \<lparr>mkey = None, mvalue = Registration ann, mtimestamp = 7\<rparr> \<and>
   saveUserToDatabase 9 ann world_pg_down =
     (Inl (Error ''connect ECONNREFUSED 127.0.0.1:5432''), world_pg_down) \<and>
   group_offset (consumer_poll 9 1 world_pg_down) 1 = 1 \<and>
   users (consumer_poll 9 1 world_pg_down) = []"
  unfolding poll_pg_down by (simp add: save_ann_pg_down pg_down_pending)

text \<open>
  C1, amended, at that state.
\<close>

theorem consumer_commits_every_message_witness:
  "group_offset world_pg_down 1 < length (topic_log world_pg_down ''user-registration'' 1) \<and>
   fst (eachMessage 9 \<lparr>mkey = None, mvalue = Registration ann, mtimestamp = 7\<rparr> world_pg_down) = Inr () \<and>
   consumer_poll 9 1 world_pg_down = world_pg_down\<lparr>group_offset := (\<lambda>p. 0)(1 := 1)\<rparr> \<and>
   group_offset (consumer_run [(9, 1), (10, 0), (11, 1)] world_pg_down) 1 = 1"
proof -
  have a: "group_offset world_pg_down 1 < length (topic_log world_pg_down ''user-registration'' 1)"
    by (simp add: pg_down_pending)
  have b: "\<lparr>mkey = None, mvalue = Registration ann, mtimestamp = 7\<rparr> =
           topic_log world_pg_down ''user-registration'' 1 ! group_offset world_pg_down 1"
    by (simp add: pg_down_pending)
  note inst = consumer_commits_every_message [OF a b, of 9 ann "[(9, 1), (10, 0), (11, 1)]"]
  from inst have r: "group_offset (consumer_run [(9, 1), (10, 0), (11, 1)] world_pg_down) 1 = 1"
    by (simp add: pg_down_pending del: consumer_run.simps)
  from inst save_ann_pg_down
  have p: "fst (eachMessage 9 \<lparr>mkey = None, mvalue = Registration ann, mtimestamp = 7\<rparr> world_pg_down) = Inr ()"
    "consumer_poll 9 1 world_pg_down = world_pg_down\<lparr>group_offset := (\<lambda>p. 0)(1 := 1)\<rparr>"
    by (simp_all add: pg_down_pending del: consumer_run.simps)
  from a r p show ?thesis by (intro conjI) assumption+
qed

subsection \<open>Two submissions with the same email\<close>

lemma ann_corrected_valid: "validateUserData joi17 ann_corrected_body = Inr ann_corrected"
  by (simp add: validateUserData_def schema_validate_def ann_corrected_body_def userSchema_def
      joi17_def simple_email_def unknown_keys_def as_user_data_def str_prop_def ann_def
      ann_corrected_def)

lemma two_submitted:
  "world_two_submitted =
     world0\<lparr>redis_store := [''user:pending:ann@x.com'' \<mapsto> (3600, PendingDoc ann_corrected)],
            counters := (\<lambda>topic. 0)(''user-registration'' := 2),
            topic_log := (\<lambda>topic p. [])(''user-registration'' := (\<lambda>p. [])
              (1 := [\<lparr>mkey = None, mvalue = Registration ann, mtimestamp = 7\<rparr>],
               2 := [\<lparr>mkey = None, mvalue = Registration ann_corrected, mtimestamp = 8\<rparr>]))\<rparr>"
  unfolding world_two_submitted_def submitUserData_valid [OF ann_valid]
    submitUserData_valid [OF ann_corrected_valid]
  by (simp add: world0_def next_partition_def toPositive_def Let_def ann_def ann_corrected_def
      numeral_2_eq_2)

lemma save_corrected_first:
  "saveUserToDatabase 9 ann_corrected world_two_submitted =
     (Inr ann_corrected_row,
      world_two_submitted\<lparr>users := [ann_corrected_row], users_id_seq := 1,
        redis_store := [''user:completed:ann@x.com'' \<mapsto> (86400, SavedDoc 9 ann_corrected_row)]\<rparr>)"
  unfolding two_submitted
  by (simp add: saveUserToDatabase_def pool_connect_def insert_on_conflict_def varchar_def
      getRedisClient_def setEx_def redis_del_def world0_def ann_def ann_row_def ann_corrected_def
      ann_corrected_row_def int4_max_def Let_def)


lemma save_original_second:
  "saveUserToDatabase 10 ann
     (world_two_submitted\<lparr>users := [ann_corrected_row], users_id_seq := 1,
        redis_store := [''user:completed:ann@x.com'' \<mapsto> (86400, SavedDoc 9 ann_corrected_row)],
        group_offset := (\<lambda>p. 0)(2 := 1)\<rparr>) =
     (Inr (ann_row\<lparr>updated_at := 10\<rparr>),
      world_two_submitted\<lparr>users := [ann_row\<lparr>updated_at := 10\<rparr>], users_id_seq := 2,
        redis_store := [''user:completed:ann@x.com'' \<mapsto>
                          (86400, SavedDoc 10 (ann_row\<lparr>updated_at := 10\<rparr>))],
        group_offset := (\<lambda>p. 0)(2 := 1)\<rparr>)"
  unfolding two_submitted
  by (simp add: saveUserToDatabase_def pool_connect_def insert_on_conflict_def varchar_def
      getRedisClient_def setEx_def redis_del_def world0_def ann_def ann_row_def ann_corrected_def
      ann_corrected_row_def int4_max_def Let_def)

lemma two_submitted_pending:
  "group_offset world_two_submitted = (\<lambda>p. 0)"
  "topic_log world_two_submitted ''user-registration'' =
     (\<lambda>p. [])
       (1 := [\<lparr>mkey = None, mvalue = Registration ann, mtimestamp = 7\<rparr>],
        2 := [\<lparr>mkey = None, mvalue = Registration ann_corrected, mtimestamp = 8\<rparr>])"
  unfolding two_submitted by (simp_all add: world0_def)

lemma poll_later_first:
  "consumer_poll 9 2 world_two_submitted =
     world_two_submitted\<lparr>users := [ann_corrected_row], users_id_seq := 1,
        redis_store := [''user:completed:ann@x.com'' \<mapsto> (86400, SavedDoc 9 ann_corrected_row)],
        group_offset := (\<lambda>p. 0)(2 := 1)\<rparr>"
proof -
  have "group_offset world_two_submitted 2 < length (topic_log world_two_submitted ''user-registration'' 2)"
    by (simp add: two_submitted_pending)
  from consumer_poll_pending [OF this, of 9] show ?thesis
    by (simp add: two_submitted_pending snd_eachMessage save_corrected_first)
qed

lemma poll_earlier_second:
  "consumer_poll 10 1 (consumer_poll 9 2 world_two_submitted) =
     world_two_submitted\<lparr>users := [ann_row\<lparr>updated_at := 10\<rparr>], users_id_seq := 2,
        redis_store := [''user:completed:ann@x.com'' \<mapsto>
                          (86400, SavedDoc 10 (ann_row\<lparr>updated_at := 10\<rparr>))],
        group_offset := (\<lambda>p. 0)(2 := 1, 1 := 1)\<rparr>"
proof -
  let ?w = "world_two_submitted\<lparr>users := [ann_corrected_row], users_id_seq := 1,
        redis_store := [''user:completed:ann@x.com'' \<mapsto> (86400, SavedDoc 9 ann_corrected_row)],
        group_offset := (\<lambda>p. 0)(2 := 1)\<rparr>"
  have "group_offset ?w 1 < length (topic_log ?w ''user-registration'' 1)"
    by (simp add: two_submitted_pending)
  note e = consumer_poll_pending [OF this, of 10]
  have msg: "topic_log ?w ''user-registration'' 1 ! group_offset ?w 1 =
      \<lparr>mkey = None, mvalue = Registration ann, mtimestamp = 7\<rparr>"
    by (simp add: two_submitted_pending)
  have s: "snd (eachMessage 10 \<lparr>mkey = None, mvalue = Registration ann, mtimestamp = 7\<rparr> ?w) =
      snd (saveUserToDatabase 10 ann ?w)"
    by (simp add: snd_eachMessage)
  show ?thesis
    unfolding poll_later_first e msg s save_original_second by simp
qed

lemma trace_later_first:
  "consumer_trace [(9, 2), (10, 1)] world_two_submitted = [(2, 0), (1, 0)]"
proof -
  have "(2::nat) \<noteq> 1" by simp
  moreover have "group_offset world_two_submitted 2 < length (topic_log world_two_submitted ''user-registration'' 2)"
    "group_offset world_two_submitted 1 < length (topic_log world_two_submitted ''user-registration'' 1)"
    by (simp_all add: two_submitted_pending)
  ultimately show ?thesis
    using consumer_trace_two [of 1 2 world_two_submitted 9 10] by (simp add: two_submitted_pending)
qed


text \<open>
  C7, amended. A message that \<open>sendMessage\<close> publishes carries no key. It is appended to
  one partition of its topic, the next in turn, whatever the record; the other
  partitions and the other topics stay as they are. In a topic of one partition every
  message goes to partition 0. In a topic of two partitions or more (of a number that
  does not divide \<open>2\<^sup>3\<^sup>1 - 1\<close>, as three does not) the message published next goes to
  another partition than this one. The consumer calls the handler for the messages of
  one partition in the order of their offsets, from the committed offset on, each
  offset once: a round on a partition calls it for the message at the committed offset
  of that partition, and for none when nothing is pending there. Between two
  partitions there is no order: when two of them have a message pending, the rounds
  can take either one first.
\<close>

theorem keyless_publish_ordered_within_partition_only:
  "(producer w \<and> kafka_fault w = None \<longrightarrow>
      (\<exists>w1. sendMessage t topic m w = Inr w1 \<and>
         topic_log w1 topic =
           (topic_log w topic)
             (next_partition w topic :=
                topic_log w topic (next_partition w topic) @
                  [\<lparr>mkey = None, mvalue = Registration m, mtimestamp = t\<rparr>]) \<and>
         (\<forall>topic'. topic' \<noteq> topic \<longrightarrow> topic_log w1 topic' = topic_log w topic') \<and>
         (1 \<le> partitions w topic \<longrightarrow> next_partition w topic < partitions w topic) \<and>
         (partitions w topic = 1 \<longrightarrow> next_partition w topic = 0 \<and> next_partition w1 topic = 0) \<and>
         (2 \<le> partitions w topic \<and> \<not> partitions w topic dvd 2147483647 \<longrightarrow>
            next_partition w1 topic \<noteq> next_partition w topic))) \<and>
   map snd (filter (\<lambda>c. fst c = p) (consumer_trace rounds w)) =
     [group_offset w p ..< group_offset (consumer_run rounds w) p] \<and>
   (p \<noteq> q \<and> group_offset w p < length (topic_log w ''user-registration'' p) \<and>
      group_offset w q < length (topic_log w ''user-registration'' q) \<longrightarrow>
      consumer_trace [(t1, p), (t2, q)] w = [(p, group_offset w p), (q, group_offset w q)] \<and>
      consumer_trace [(t1, q), (t2, p)] w = [(q, group_offset w q), (p, group_offset w p)]) \<and>
   (group_offset w p < length (topic_log w ''user-registration'' p) \<longrightarrow>
      consumer_trace [(t1, p)] w = [(p, group_offset w p)] \<and>
      consumer_poll t1 p w =
        (snd (eachMessage t1 (topic_log w ''user-registration'' p ! group_offset w p) w))
          \<lparr>group_offset := (group_offset w)(p := Suc (group_offset w p))\<rparr>) \<and>
   (length (topic_log w ''user-registration'' p) \<le> group_offset w p \<longrightarrow>
      consumer_trace [(t1, p)] w = [] \<and> consumer_poll t1 p w = w)"
proof -
  have send: "producer w \<and> kafka_fault w = None \<longrightarrow>
      (\<exists>w1. sendMessage t topic m w = Inr w1 \<and>
         topic_log w1 topic =
           (topic_log w topic)
             (next_partition w topic :=
                topic_log w topic (next_partition w topic) @
                  [\<lparr>mkey = None, mvalue = Registration m, mtimestamp = t\<rparr>]) \<and>
         (\<forall>topic'. topic' \<noteq> topic \<longrightarrow> topic_log w1 topic' = topic_log w topic') \<and>
         (1 \<le> partitions w topic \<longrightarrow> next_partition w topic < partitions w topic) \<and>
         (partitions w topic = 1 \<longrightarrow> next_partition w topic = 0 \<and> next_partition w1 topic = 0) \<and>
         (2 \<le> partitions w topic \<and> \<not> partitions w topic dvd 2147483647 \<longrightarrow>
            next_partition w1 topic \<noteq> next_partition w topic))"
  proof (rule impI)
    assume up: "producer w \<and> kafka_fault w = None"
    let ?w1 = "w\<lparr>counters := (counters w)(topic := Suc (counters w topic)),
            topic_log := (topic_log w)
              (topic := (topic_log w topic)
                 (next_partition w topic :=
                    topic_log w topic (next_partition w topic) @
                      [\<lparr>mkey = None, mvalue = Registration m, mtimestamp = t\<rparr>]))\<rparr>"
    from up have s: "sendMessage t topic m w = Inr ?w1" by (simp add: sendMessage_ok)
    have l: "topic_log ?w1 topic =
           (topic_log w topic)
             (next_partition w topic :=
                topic_log w topic (next_partition w topic) @
                  [\<lparr>mkey = None, mvalue = Registration m, mtimestamp = t\<rparr>])"
      by simp
    have o: "\<forall>topic'. topic' \<noteq> topic \<longrightarrow> topic_log ?w1 topic' = topic_log w topic'"
      by simp
    have b: "1 \<le> partitions w topic \<longrightarrow> next_partition w topic < partitions w topic"
      using next_partition_less [of w topic] by (rule impI)
    have pw: "partitions ?w1 = partitions w" "counters ?w1 topic = Suc (counters w topic)"
      by simp_all
    have one: "partitions w topic = 1 \<longrightarrow> next_partition w topic = 0 \<and> next_partition ?w1 topic = 0"
      using next_partition_single [of w topic] next_partition_single [of ?w1 topic] pw(1)
      by simp
    have turn: "2 \<le> partitions w topic \<and> \<not> partitions w topic dvd 2147483647 \<longrightarrow>
            next_partition ?w1 topic \<noteq> next_partition w topic"
      using next_partition_turn [OF _ _ pw, of] by blast
    from s l o b one turn show "\<exists>w1. sendMessage t topic m w = Inr w1 \<and>
         topic_log w1 topic =
           (topic_log w topic)
             (next_partition w topic :=
                topic_log w topic (next_partition w topic) @
                  [\<lparr>mkey = None, mvalue = Registration m, mtimestamp = t\<rparr>]) \<and>
         (\<forall>topic'. topic' \<noteq> topic \<longrightarrow> topic_log w1 topic' = topic_log w topic') \<and>
         (1 \<le> partitions w topic \<longrightarrow> next_partition w topic < partitions w topic) \<and>
         (partitions w topic = 1 \<longrightarrow> next_partition w topic = 0 \<and> next_partition w1 topic = 0) \<and>
         (2 \<le> partitions w topic \<and> \<not> partitions w topic dvd 2147483647 \<longrightarrow>
            next_partition w1 topic \<noteq> next_partition w topic)"
      by (intro exI [of _ ?w1] conjI) assumption+
  qed
  have order: "map snd (filter (\<lambda>c. fst c = p) (consumer_trace rounds w)) =
     [group_offset w p ..< group_offset (consumer_run rounds w) p]"
    by (rule consumer_trace_partition)
  have free: "p \<noteq> q \<and> group_offset w p < length (topic_log w ''user-registration'' p) \<and>
      group_offset w q < length (topic_log w ''user-registration'' q) \<longrightarrow>
      consumer_trace [(t1, p), (t2, q)] w = [(p, group_offset w p), (q, group_offset w q)] \<and>
      consumer_trace [(t1, q), (t2, p)] w = [(q, group_offset w q), (p, group_offset w p)]"
    using consumer_trace_two [of p q w t1 t2] consumer_trace_two [of q p w t1 t2] by blast
  have call: "group_offset w p < length (topic_log w ''user-registration'' p) \<longrightarrow>
      consumer_trace [(t1, p)] w = [(p, group_offset w p)] \<and>
      consumer_poll t1 p w =
        (snd (eachMessage t1 (topic_log w ''user-registration'' p ! group_offset w p) w))
          \<lparr>group_offset := (group_offset w)(p := Suc (group_offset w p))\<rparr>"
    using consumer_poll_pending [of w p t1] by simp
  have idle: "length (topic_log w ''user-registration'' p) \<le> group_offset w p \<longrightarrow>
      consumer_trace [(t1, p)] w = [] \<and> consumer_poll t1 p w = w"
    using consumer_poll_idle [of w p t1] by simp
  from send order free call idle show ?thesis by (intro conjI) assumption+
qed

text \<open>
  C7 as stated fails. The submission of the scenario and a later correction of it, with
  the same email, are published without a key, into partitions 1 and 2. Rounds that take
  partition 2 first hand the correction to the handler before the submission, and the
  table is left with the occupation that the correction had replaced.
\<close>

theorem later_submission_processed_first:
  "email ann_corrected = email ann \<and>
   topic_log world_two_submitted ''user-registration'' =
     (\<lambda>p. [])
       (1 := [\<lparr>mkey = None, mvalue = Registration ann, mtimestamp = 7\<rparr>],
        2 := [\<lparr>mkey = None, mvalue = Registration ann_corrected, mtimestamp = 8\<rparr>]) \<and>
   consumer_trace [(9, 2), (10, 1)] world_two_submitted = [(2, 0), (1, 0)] \<and>
   users (consumer_run [(9, 2), (10, 1)] world_two_submitted) = [ann_row\<lparr>updated_at := 10\<rparr>] \<and>
   row_occupation ann_row = ''Engineer'' \<and> occupation ann_corrected = ''Manager''"
  unfolding consumer_run.simps poll_earlier_second trace_later_first
  by (simp add: two_submitted_pending ann_corrected_def ann_row_def)

text \<open>
  C7, amended, at the two submissions of that run: the partitions they are published to,
  and the calls of the handler in rounds that take partition 1 first.
\<close>

theorem keyless_publish_ordered_within_partition_only_witness:
  "producer world0 \<and> kafka_fault world0 = None \<and> partitions world0 ''user-registration'' = 3 \<and>
   next_partition world0 ''user-registration'' = 1 \<and>
   (\<exists>w1. sendMessage 7 ''user-registration'' ann world0 = Inr w1 \<and>
      topic_log w1 ''user-registration'' =
        (\<lambda>p. [])(1 := [\<lparr>mkey = None, mvalue = Registration ann, mtimestamp = 7\<rparr>]) \<and>
      next_partition w1 ''user-registration'' \<noteq> 1) \<and>
   consumer_trace [(9, 1), (10, 2)] world_two_submitted = [(1, 0), (2, 0)] \<and>
   map snd (filter (\<lambda>c. fst c = 1) (consumer_trace [(9, 1), (10, 2)] world_two_submitted)) =
     [0 ..< group_offset (consumer_run [(9, 1), (10, 2)] world_two_submitted) 1] \<and>
   consumer_trace [(9, 2)] world_two_submitted = [(2, 0)] \<and>
   users (consumer_poll 9 2 world_two_submitted) = [ann_corrected_row] \<and>
   consumer_poll 9 0 world_two_submitted = world_two_submitted"
proof -
  have up: "producer world0 \<and> kafka_fault world0 = None" by (simp add: world0_def)
  have n: "partitions world0 ''user-registration'' = 3" by (simp add: world0_def)
  have np: "next_partition world0 ''user-registration'' = 1"
    by (simp add: next_partition_def toPositive_def world0_def)
  have d: "2 \<le> partitions world0 ''user-registration'' \<and>
      \<not> partitions world0 ''user-registration'' dvd 2147483647"
    by (simp add: n)
  have l0: "topic_log world0 ''user-registration'' = (\<lambda>p. [])" by (simp add: world0_def)
  have pend: "(1::nat) \<noteq> 2 \<and>
      group_offset world_two_submitted 1 < length (topic_log world_two_submitted ''user-registration'' 1) \<and>
      group_offset world_two_submitted 2 < length (topic_log world_two_submitted ''user-registration'' 2)"
    by (simp add: two_submitted_pending)
  note sent = keyless_publish_ordered_within_partition_only
    [of world0 7 "''user-registration''" ann 1 "[(9, 1), (10, 2)]" 2 9 10]
  note inst = keyless_publish_ordered_within_partition_only
    [of world_two_submitted 7 "''user-registration''" ann 1 "[(9, 1), (10, 2)]" 2 9 10]
  from sent up obtain w1 where w1: "sendMessage 7 ''user-registration'' ann world0 = Inr w1"
    "topic_log w1 ''user-registration'' =
       (topic_log world0 ''user-registration'')
         (next_partition world0 ''user-registration'' :=
            topic_log world0 ''user-registration'' (next_partition world0 ''user-registration'') @
              [\<lparr>mkey = None, mvalue = Registration ann, mtimestamp = 7\<rparr>])"
    "2 \<le> partitions world0 ''user-registration'' \<and>
      \<not> partitions world0 ''user-registration'' dvd 2147483647 \<longrightarrow>
      next_partition w1 ''user-registration'' \<noteq> next_partition world0 ''user-registration''"
    by blast
  from w1(2) have log: "topic_log w1 ''user-registration'' =
        (\<lambda>p. [])(1 := [\<lparr>mkey = None, mvalue = Registration ann, mtimestamp = 7\<rparr>])"
    unfolding np l0 by simp
  from w1(3) d have other: "next_partition w1 ''user-registration'' \<noteq> 1"
    unfolding np by blast
  from w1(1) log other have e: "\<exists>w1. sendMessage 7 ''user-registration'' ann world0 = Inr w1 \<and>
      topic_log w1 ''user-registration'' =
        (\<lambda>p. [])(1 := [\<lparr>mkey = None, mvalue = Registration ann, mtimestamp = 7\<rparr>]) \<and>
      next_partition w1 ''user-registration'' \<noteq> 1"
    by blast
  have "consumer_trace [(9, 1), (10, 2)] world_two_submitted =
        [(1, group_offset world_two_submitted 1), (2, group_offset world_two_submitted 2)] \<and>
      consumer_trace [(9, 2), (10, 1)] world_two_submitted =
        [(2, group_offset world_two_submitted 2), (1, group_offset world_two_submitted 1)]"
    using inst [THEN conjunct2, THEN conjunct2, THEN conjunct1] pend by (rule mp)
  then have tr: "consumer_trace [(9, 1), (10, 2)] world_two_submitted = [(1, 0), (2, 0)]"
    unfolding two_submitted_pending(1) by (rule conjunct1)
  have ord: "map snd (filter (\<lambda>c. fst c = 1) (consumer_trace [(9, 1), (10, 2)] world_two_submitted)) =
     [0 ..< group_offset (consumer_run [(9, 1), (10, 2)] world_two_submitted) 1]"
    using inst [THEN conjunct2, THEN conjunct1] unfolding two_submitted_pending(1) .
  note later = keyless_publish_ordered_within_partition_only
    [of world_two_submitted 7 "''user-registration''" ann 2 "[(9, 1), (10, 2)]" 1 9 10]
  have "consumer_trace [(9, 2)] world_two_submitted = [(2, group_offset world_two_submitted 2)] \<and>
      consumer_poll 9 2 world_two_submitted =
        (snd (eachMessage 9 (topic_log world_two_submitted ''user-registration'' 2 !
                group_offset world_two_submitted 2) world_two_submitted))
          \<lparr>group_offset := (group_offset world_two_submitted)
             (2 := Suc (group_offset world_two_submitted 2))\<rparr>"
    using later [THEN conjunct2, THEN conjunct2, THEN conjunct2, THEN conjunct1]
      pend [THEN conjunct2, THEN conjunct2] by (rule mp)
  then have c: "consumer_trace [(9, 2)] world_two_submitted = [(2, 0)]"
    and u: "users (consumer_poll 9 2 world_two_submitted) = [ann_corrected_row]"
    by (simp_all add: two_submitted_pending snd_eachMessage save_corrected_first
        del: consumer_trace.simps)
  note none = keyless_publish_ordered_within_partition_only
    [of world_two_submitted 7 "''user-registration''" ann 0 "[(9, 1), (10, 2)]" 1 9 10]
  have "length (topic_log world_two_submitted ''user-registration'' 0) \<le>
      group_offset world_two_submitted 0"
    by (simp add: two_submitted_pending)
  with none [THEN conjunct2, THEN conjunct2, THEN conjunct2, THEN conjunct2]
  have i: "consumer_poll 9 0 world_two_submitted = world_two_submitted"
    by (simp del: consumer_trace.simps)
  from up n np e tr ord c u i show ?thesis by (intro conjI) (assumption | simp)+
qed

end
